theory Spec2Isabelle
  imports Main "HOL-Library.Word" "HOL-Library.Signed_Division"
begin

unbundle bit_operations_syntax

section \<open>Errors\<close>

text \<open>
  Every \<^verbatim>\<open>throw\<close> of the two source files, and the \<^verbatim>\<open>TypeError\<close> that JavaScript
  raises when a property of \<^verbatim>\<open>null\<close> is read, is a value of this type.
  \<^item> \<open>AlreadyAcquired\<close>: "Time capsule state has already been acquired by some other instant."
  \<^item> \<open>NotAcquired\<close>: "Cannot release a state that is not acquired."
  \<^item> \<open>AcquiredElsewhere\<close>: "Cannot release a state that is acquired by some other instant."
  \<^item> \<open>IndependentTransfer\<close>: "Cannot transfer components to independent instruction."
  \<^item> \<open>TypeError\<close>: a property read on \<^verbatim>\<open>null\<close>.
  \<^item> \<open>Thrown msg\<close>: an exception raised by a caller-supplied function.
\<close>

datatype error =
    AlreadyAcquired
  | NotAcquired
  | AcquiredElsewhere
  | IndependentTransfer
  | TypeError
  | Thrown string

section \<open>Instruction indices (taskInstruction.ts)\<close>

text \<open>
  JavaScript's \<^verbatim>\<open>a << b\<close> converts \<^verbatim>\<open>a\<close> to a signed 32-bit integer, shifts it left by
  \<^verbatim>\<open>b\<close> modulo 32 and reads the result as a signed 32-bit integer again.
\<close>

definition jsShiftLeft :: "int \<Rightarrow> int \<Rightarrow> int" where
  "jsShiftLeft a b = sint (push_bit (nat (b mod 32)) (word_of_int a :: 32 word))"

text \<open>
  JavaScript's \<^verbatim>\<open>a % b\<close> on integers is the truncated remainder: its sign is the sign of
  the dividend. The divisor below is a non-zero constant.
\<close>

definition jsRemainder :: "int \<Rightarrow> int \<Rightarrow> int" where
  "jsRemainder a b = a smod b"

text \<open>
  The divisor of \<^verbatim>\<open>generateInstructionIndex\<close> is written \<^verbatim>\<open>1 << 31 - 1\<close>. In JavaScript
  the binary minus binds tighter than the shift, so the expression is \<^verbatim>\<open>1 << (31 - 1)\<close>.
\<close>

definition indexModulus :: int where
  "indexModulus = jsShiftLeft 1 (31 - 1)"

text \<open>
  \<^verbatim>\<open>generateInstructionIndex\<close> reads and updates the static \<^verbatim>\<open>taskCounter\<close>; the model
  takes the counter and returns the index together with the new counter.
\<close>

definition generateInstructionIndex :: "int \<Rightarrow> int \<times> int" where
  "generateInstructionIndex taskCounter =
     (let result = taskCounter
      in (result, jsRemainder (taskCounter + 1) indexModulus))"

section \<open>Task instructions (taskInstruction.ts)\<close>

text \<open>
  Modelled from the spec: the enumeration \<^verbatim>\<open>ModelComponent\<close> of \<^verbatim>\<open>modelTaskMetadata.ts\<close>
  is not among the sources. Section 6 of the specification names its members. The
  operations below work for any type of components; the examples use this one.
\<close>

datatype ModelComponent = DataGraph | SHACLShapesGraph | ValidationReport | IO | UI

text \<open>
  Modelled from the spec: the class \<^verbatim>\<open>ModelData\<close> is not among the sources. By section 3
  of the specification it is a mapping from component to value in which a set replaces
  the value and a get returns absent for a component never set; \<^verbatim>\<open>setComponentUnchecked\<close>
  is the set that bypasses change tracking. The value handed to the set is what the get
  returned, so it may be absent (\<^verbatim>\<open>undefined\<close>).
\<close>

type_synonym ('c, 'v) ModelData = "'c \<rightharpoonup> 'v"

definition getComponentUnchecked :: "('c, 'v) ModelData \<Rightarrow> 'c \<Rightarrow> 'v option" where
  "getComponentUnchecked d component = d component"

definition setComponentUnchecked ::
  "('c, 'v) ModelData \<Rightarrow> 'c \<Rightarrow> 'v option \<Rightarrow> ('c, 'v) ModelData" where
  "setComponentUnchecked d component v = d(component := v)"

text \<open>
  Instructions and model data are objects: an instruction is a reference into a store of
  instructions, its \<^verbatim>\<open>data\<close> field a reference into a store of model data, since two
  instructions may hold the same \<^verbatim>\<open>ModelData\<close> object.

  \<^verbatim>\<open>Collections.Dictionary\<close> and \<^verbatim>\<open>Collections.Set\<close> identify a key by its string
  representation, as the comment on \<^verbatim>\<open>index\<close> says, and \<^verbatim>\<open>toString\<close> of an instruction
  is \<^verbatim>\<open>Instruction <index>\<close>: the key of an instruction is its index. A dictionary entry
  keeps the key object next to the value. A set of components is the list of its members
  in insertion order, without repetition.
\<close>

type_synonym instruction = nat

type_synonym dataRef = nat

record ('t, 'c) TaskInstruction =
  index :: int
  task :: 't
  data :: dataRef
  dependencies :: "int \<rightharpoonup> (instruction \<times> 'c list)"
  invertedDependencies :: "int \<rightharpoonup> instruction"

type_synonym ('t, 'c) instructionStore = "instruction \<Rightarrow> ('t, 'c) TaskInstruction"

type_synonym ('c, 'v) dataStore = "dataRef \<Rightarrow> ('c, 'v) ModelData"

text \<open>
  The constructor. The world is the static \<^verbatim>\<open>taskCounter\<close>, the store of instructions and
  the number of instructions constructed so far (the next fresh reference).
\<close>

record ('t, 'c) instructionWorld =
  taskCounter :: int
  instructions :: "('t, 'c) instructionStore"
  constructedInstructions :: nat

definition newTaskInstruction ::
  "'t \<Rightarrow> dataRef \<Rightarrow> ('t, 'c) instructionWorld \<Rightarrow> instruction \<times> ('t, 'c) instructionWorld" where
  "newTaskInstruction task' data' w =
     (case generateInstructionIndex (taskCounter w) of
        (index', counter') \<Rightarrow>
          (constructedInstructions w,
           w\<lparr>taskCounter := counter',
             instructions := (instructions w)(constructedInstructions w :=
               \<lparr>index = index', task = task', data = data',
                dependencies = Map.empty, invertedDependencies = Map.empty\<rparr>),
             constructedInstructions := constructedInstructions w + 1\<rparr>))"

text \<open>\<^verbatim>\<open>Set.add\<close>: an element already in the set is not added again.\<close>

definition addComponent :: "'c \<Rightarrow> 'c list \<Rightarrow> 'c list" where
  "addComponent component componentSet =
     (if component \<in> set componentSet then componentSet else componentSet @ [component])"

definition addInstruction ::
  "int \<Rightarrow> instruction \<Rightarrow> (int \<rightharpoonup> instruction) \<Rightarrow> (int \<rightharpoonup> instruction)" where
  "addInstruction key element s = (if key \<in> dom s then s else s(key \<mapsto> element))"

text \<open>
  \<^verbatim>\<open>addDependency\<close>: \<^verbatim>\<open>getValue\<close> looks the dependency up by its key, a missing entry
  gives a new empty set, the component is added, \<^verbatim>\<open>setValue\<close> stores the entry under the
  key of the dependency, and this instruction is added to the inverted dependencies of the
  dependency. The second update reads the store after the first: \<^verbatim>\<open>this\<close> and
  \<^verbatim>\<open>dependency\<close> may be the same object.
\<close>

definition addDependency ::
  "instruction \<Rightarrow> instruction \<Rightarrow> 'c \<Rightarrow> ('t, 'c) instructionStore \<Rightarrow> ('t, 'c) instructionStore" where
  "addDependency this dependency component ih =
     (let key = index (ih dependency);
          componentSet = (case dependencies (ih this) key of
                            None \<Rightarrow> []
                          | Some (k, cs) \<Rightarrow> cs);
          componentSet' = addComponent component componentSet;
          ih1 = ih(this := (ih this)
                  \<lparr>dependencies := (dependencies (ih this))(key \<mapsto> (dependency, componentSet'))\<rparr>)
      in ih1(dependency := (ih1 dependency)
               \<lparr>invertedDependencies :=
                  addInstruction (index (ih1 this)) this
                    (invertedDependencies (ih1 dependency))\<rparr>))"

text \<open>
  \<^verbatim>\<open>transferOutput\<close>: the \<^verbatim>\<open>forEach\<close> over the components of the edge reads each
  component from the data of this instruction and sets it in the data of the target. The
  instructions are not changed; the model takes the store of model data and returns it
  changed. The error is raised before anything is written.
\<close>

primrec transferComponents ::
  "dataRef \<Rightarrow> dataRef \<Rightarrow> 'c list \<Rightarrow> ('c, 'v) dataStore \<Rightarrow> ('c, 'v) dataStore" where
  "transferComponents source target [] dh = dh"
| "transferComponents source target (component # rest) dh =
     transferComponents source target rest
       (dh(target := setComponentUnchecked (dh target) component
                       (getComponentUnchecked (dh source) component)))"

definition transferOutput ::
  "('t, 'c) instructionStore \<Rightarrow> instruction \<Rightarrow> instruction \<Rightarrow> ('c, 'v) dataStore
     \<Rightarrow> error + ('c, 'v) dataStore" where
  "transferOutput ih this target dh =
     (case dependencies (ih target) (index (ih this)) of
        None \<Rightarrow> Inl IndependentTransfer
      | Some (k, componentsToTransfer) \<Rightarrow>
          Inr (transferComponents (data (ih this)) (data (ih target)) componentsToTransfer dh))"

text \<open>
  \<open>symmetricEdges ih\<close>: dependency edges and inverted edges mirror each other. Whenever
  an instruction has a dependency entry for a predecessor, the inverted dependencies of
  the predecessor contain the instruction; and whenever the inverted dependencies of an
  instruction contain a successor, the successor has a dependency entry for the
  instruction.
\<close>

definition symmetricEdges :: "('t, 'c) instructionStore \<Rightarrow> bool" where
  "symmetricEdges ih =
     ((\<forall>s key p cs. dependencies (ih s) key = Some (p, cs)
         \<longrightarrow> index (ih s) \<in> dom (invertedDependencies (ih p)))
      \<and> (\<forall>p key s. invertedDependencies (ih p) key = Some s
         \<longrightarrow> index (ih p) \<in> dom (dependencies (ih s))))"

subsection \<open>Example instructions\<close>

text \<open>
  Three instructions built by the constructor from a fresh counter, each with model data
  of its own (references 0, 1 and 2), and the store of model data of the output-transfer
  scenario: the first instruction has set the data graph and the I/O component to 1.
\<close>

definition emptyWorld :: "(unit, ModelComponent) instructionWorld" where
  "emptyWorld =
     \<lparr>taskCounter = 0,
      instructions = (\<lambda>_. \<lparr>index = 0, task = (), data = 0,
                           dependencies = Map.empty, invertedDependencies = Map.empty\<rparr>),
      constructedInstructions = 0\<rparr>"

definition threeInstructions :: "(unit, ModelComponent) instructionStore" where
  "threeInstructions =
     instructions (snd (newTaskInstruction () 2 (snd (newTaskInstruction () 1
       (snd (newTaskInstruction () 0 emptyWorld))))))"

definition exampleData :: "(ModelComponent, int) dataStore" where
  "exampleData = (\<lambda>_. Map.empty)(0 := [DataGraph \<mapsto> 1, IO \<mapsto> 1], 2 := [IO \<mapsto> 2, UI \<mapsto> 3])"

text \<open>The counter just before the wrap, for two more constructions.\<close>

definition worldBeforeWrap :: "(unit, ModelComponent) instructionWorld" where
  "worldBeforeWrap = emptyWorld\<lparr>taskCounter := 2 ^ 30 - 1\<rparr>"

text \<open>
  The edges of the output-transfer scenario: the third instruction takes the data graph
  from the first and the I/O component from the second.
\<close>

definition linkedInstructions :: "(unit, ModelComponent) instructionStore" where
  "linkedInstructions = addDependency 2 1 IO (addDependency 2 0 DataGraph threeInstructions)"

section \<open>Priority generator\<close>

text \<open>
  Modelled from the spec: the class \<^verbatim>\<open>PriorityGenerator\<close> of
  \<^verbatim>\<open>priorityPartitionedQueue.ts\<close> is not among the sources (only its test is), so the
  generator follows section 4.3 of the specification: the bounds \<open>hi\<close> and \<open>lo\<close>
  (both 0 at first), the length \<open>step\<close> of the current descending run (1 at first) and the
  next value \<open>current\<close> to emit (\<open>hi\<close> at first).
\<close>

record PriorityGenerator =
  hi :: int
  lo :: int
  step :: int
  current :: int

definition newPriorityGenerator :: PriorityGenerator where
  "newPriorityGenerator = \<lparr>hi = 0, lo = 0, step = 1, current = 0\<rparr>"

text \<open>
  Modelled from the spec: \<^verbatim>\<open>notifyPriorityExists(p)\<close> enlarges the range to include
  \<open>p\<close> and restarts the sawtooth when the range grew; a priority already in range changes
  nothing.
\<close>

definition notifyPriorityExists :: "int \<Rightarrow> PriorityGenerator \<Rightarrow> PriorityGenerator" where
  "notifyPriorityExists p g =
     (if p > hi g \<or> p < lo g
      then g\<lparr>hi := max (hi g) p, lo := min (lo g) p, step := 1, current := max (hi g) p\<rparr>
      else g)"

text \<open>
  Modelled from the spec: \<^verbatim>\<open>next()\<close> emits \<open>current\<close>; it then moves one down while the
  run is not finished and \<open>lo\<close> is not reached, and otherwise starts the next, longer run
  at \<open>hi\<close> (a run of length 1 again after the longest one). The model returns the emitted
  priority and the new generator.
\<close>

definition nextPriority :: "PriorityGenerator \<Rightarrow> int \<times> PriorityGenerator" where
  "nextPriority g =
     (current g,
      if current g > hi g - step g + 1 \<and> current g > lo g
      then g\<lparr>current := current g - 1\<rparr>
      else (let s = step g + 1
            in g\<lparr>step := (if s > hi g - lo g + 1 then 1 else s), current := hi g\<rparr>))"

text \<open>The priorities returned by the first \<open>n\<close> calls to \<^verbatim>\<open>next()\<close>.\<close>

fun nextPriorities :: "nat \<Rightarrow> PriorityGenerator \<Rightarrow> int list" where
  "nextPriorities 0 g = []"
| "nextPriorities (Suc n) g = (case nextPriority g of (p, g') \<Rightarrow> p # nextPriorities n g')"

section \<open>Time capsule (timeCapsule.ts)\<close>

text \<open>
  A \<^verbatim>\<open>TimeCapsule<T>\<close> object is an instant. Instants are compared with \<^verbatim>\<open>===\<close>, that
  is by object identity, so an instant is a reference and the objects live in a store. The
  fields of an instant are \<^verbatim>\<open>readonly\<close>: no operation changes the store of the instants
  that exist. A \<^verbatim>\<open>TimeCapsule<T> | null\<close> is an \<open>instant option\<close>.

  The thunks \<^verbatim>\<open>undoChange\<close> and \<^verbatim>\<open>redoChange\<close> have type \<^verbatim>\<open>(state: T) => void\<close>: they
  are supplied by the caller of \<^verbatim>\<open>modify\<close>, change the data in place, and return or
  throw. The model gives a thunk the data and takes back how the call ends:
  \<open>Returns d\<close> when it returns and \<open>Throws msg d\<close> when it throws, with \<open>d\<close> the data as the
  thunk leaves it. A thunk is handed the data only: a thunk that calls back into the
  capsule is outside the model.
\<close>

type_synonym instant = nat

datatype 'd outcome = Returns 'd | Throws string 'd

record 'd TimeCapsule =
  parent :: "instant option"
  undoChange :: "'d \<Rightarrow> 'd outcome"
  redoChange :: "'d \<Rightarrow> 'd outcome"
  generation :: nat

type_synonym 'd instants = "instant \<Rightarrow> 'd TimeCapsule"

text \<open>
  \<^verbatim>\<open>TimeCapsuleState<T>\<close>, the state shared by the instants of one capsule: \<^verbatim>\<open>modify\<close>
  hands \<^verbatim>\<open>this.state\<close> on to the child, so all instants that descend from one
  \<^verbatim>\<open>create\<close> hold the same state object. The operations below take that object and return
  it changed. The acquisition count starts at 0, goes up in \<^verbatim>\<open>acquire\<close> and goes down in
  \<^verbatim>\<open>release\<close> only after the test against 0: it is a natural number.
\<close>

record 'd TimeCapsuleState =
  data :: 'd
  currentInstant :: "instant option"
  acquisitionCount :: nat

text \<open>
  The three loops of \<^verbatim>\<open>findLastCommonAncestor\<close>. Each is a \<^verbatim>\<open>while\<close> that follows
  \<^verbatim>\<open>parent\<close> links, so it need not return on an arbitrary store: \<open>None\<close> is "does not
  return". Reading \<^verbatim>\<open>generation\<close> or \<^verbatim>\<open>parent\<close> of \<^verbatim>\<open>null\<close> raises \<open>TypeError\<close>.
\<close>

partial_function (option) raiseFirst ::
  "'d instants \<Rightarrow> instant option \<Rightarrow> instant option \<Rightarrow> (error + instant option) option" where
  "raiseFirst h first second =
     (case first of None \<Rightarrow> Some (Inl TypeError)
      | Some f \<Rightarrow>
         (case second of None \<Rightarrow> Some (Inl TypeError)
          | Some s \<Rightarrow>
             if generation (h f) > generation (h s)
             then raiseFirst h (parent (h f)) second
             else Some (Inr first)))"

partial_function (option) raiseSecond ::
  "'d instants \<Rightarrow> instant option \<Rightarrow> instant option \<Rightarrow> (error + instant option) option" where
  "raiseSecond h first second =
     (case second of None \<Rightarrow> Some (Inl TypeError)
      | Some s \<Rightarrow>
         (case first of None \<Rightarrow> Some (Inl TypeError)
          | Some f \<Rightarrow>
             if generation (h s) > generation (h f)
             then raiseSecond h first (parent (h s))
             else Some (Inr second)))"

partial_function (option) raiseBoth ::
  "'d instants \<Rightarrow> instant option \<Rightarrow> instant option \<Rightarrow> (error + instant option) option" where
  "raiseBoth h first second =
     (if first \<noteq> second
      then (case first of None \<Rightarrow> Some (Inl TypeError)
            | Some f \<Rightarrow>
               (case second of None \<Rightarrow> Some (Inl TypeError)
                | Some s \<Rightarrow> raiseBoth h (parent (h f)) (parent (h s))))
      else Some (Inr first))"

definition findLastCommonAncestor ::
  "'d instants \<Rightarrow> instant option \<Rightarrow> instant option \<Rightarrow> (error + instant option) option" where
  "findLastCommonAncestor h first second =
     (case raiseFirst h first second of
        None \<Rightarrow> None
      | Some (Inl e) \<Rightarrow> Some (Inl e)
      | Some (Inr first1) \<Rightarrow>
         (case raiseSecond h first1 second of
            None \<Rightarrow> None
          | Some (Inl e) \<Rightarrow> Some (Inl e)
          | Some (Inr second1) \<Rightarrow> raiseBoth h first1 second1))"

text \<open>
  \<^verbatim>\<open>pathToAncestor\<close>: the loop pushes the instant and moves to its parent until the
  ancestor is met. A \<^verbatim>\<open>null\<close> instant that is not the ancestor is pushed and then raises
  when its \<^verbatim>\<open>parent\<close> is read.
\<close>

partial_function (option) pathToAncestorLoop ::
  "'d instants \<Rightarrow> instant option \<Rightarrow> instant option \<Rightarrow> instant list
     \<Rightarrow> (error + instant list) option" where
  "pathToAncestorLoop h inst ancestor results =
     (if inst \<noteq> ancestor
      then (case inst of None \<Rightarrow> Some (Inl TypeError)
            | Some i \<Rightarrow> pathToAncestorLoop h (parent (h i)) ancestor (results @ [i]))
      else Some (Inr results))"

definition pathToAncestor ::
  "'d instants \<Rightarrow> instant \<Rightarrow> instant option \<Rightarrow> (error + instant list) option" where
  "pathToAncestor h this ancestor = pathToAncestorLoop h (Some this) ancestor []"

text \<open>
  The two \<^verbatim>\<open>for ... of\<close> loops of \<^verbatim>\<open>acquire\<close>, over an array of instants. The thunks
  are called with no \<^verbatim>\<open>try\<close> around them: the first thunk that throws ends the loop, and
  the thunks after it are not called.
\<close>

primrec undoAll :: "'d instants \<Rightarrow> instant list \<Rightarrow> 'd \<Rightarrow> 'd outcome" where
  "undoAll h [] d = Returns d"
| "undoAll h (i # is) d =
     (case undoChange (h i) d of
        Throws msg d' \<Rightarrow> Throws msg d'
      | Returns d' \<Rightarrow> undoAll h is d')"

primrec redoAll :: "'d instants \<Rightarrow> instant list \<Rightarrow> 'd \<Rightarrow> 'd outcome" where
  "redoAll h [] d = Returns d"
| "redoAll h (i # is) d =
     (case redoChange (h i) d of
        Throws msg d' \<Rightarrow> Throws msg d'
      | Returns d' \<Rightarrow> redoAll h is d')"

text \<open>
  \<^verbatim>\<open>acquire\<close>. A result is the value returned or the error raised, together with the
  shared state as the call leaves it; \<open>None\<close> is a call that does not return. An
  exception of a thunk leaves \<^verbatim>\<open>acquire\<close> as \<open>Thrown msg\<close>: the data is as the thunks
  that ran left it, and the current instant and the acquisition count, which are set after
  the loops, are as before.
\<close>

definition acquire ::
  "'d instants \<Rightarrow> instant \<Rightarrow> 'd TimeCapsuleState
     \<Rightarrow> ((error + 'd) \<times> 'd TimeCapsuleState) option" where
  "acquire h this s =
     (let d = data s; cur = currentInstant s
      in if cur = Some this
         then Some (Inr d, s\<lparr>acquisitionCount := acquisitionCount s + 1\<rparr>)
         else if acquisitionCount s > 0
         then Some (Inl AlreadyAcquired, s)
         else
           (case findLastCommonAncestor h (Some this) cur of
              None \<Rightarrow> None
            | Some (Inl e) \<Rightarrow> Some (Inl e, s)
            | Some (Inr ancestor) \<Rightarrow>
               (case cur of
                  None \<Rightarrow> Some (Inl TypeError, s)
                | Some c \<Rightarrow>
                   (case pathToAncestor h c ancestor of
                      None \<Rightarrow> None
                    | Some (Inl e) \<Rightarrow> Some (Inl e, s)
                    | Some (Inr undoPath) \<Rightarrow>
                       (case undoAll h undoPath d of
                          Throws msg d1 \<Rightarrow> Some (Inl (Thrown msg), s\<lparr>data := d1\<rparr>)
                        | Returns d1 \<Rightarrow>
                           (case pathToAncestor h this ancestor of
                              None \<Rightarrow> None
                            | Some (Inl e) \<Rightarrow> Some (Inl e, s\<lparr>data := d1\<rparr>)
                            | Some (Inr redoPath) \<Rightarrow>
                               (case redoAll h (rev redoPath) d1 of
                                  Throws msg d2 \<Rightarrow> Some (Inl (Thrown msg), s\<lparr>data := d2\<rparr>)
                                | Returns d2 \<Rightarrow>
                                   Some (Inr d2,
                                     s\<lparr>data := d2, currentInstant := Some this,
                                       acquisitionCount := acquisitionCount s + 1\<rparr>))))))))"

definition release ::
  "instant \<Rightarrow> 'd TimeCapsuleState \<Rightarrow> (error + unit) \<times> 'd TimeCapsuleState" where
  "release this s =
     (if acquisitionCount s = 0 then (Inl NotAcquired, s)
      else if currentInstant s \<noteq> Some this then (Inl AcquiredElsewhere, s)
      else (Inr (), s\<lparr>acquisitionCount := acquisitionCount s - 1\<rparr>))"

text \<open>
  \<^verbatim>\<open>query\<close>. The caller's function receives the data, may change it in place, and
  returns a result or raises: \<open>func d\<close> is the outcome together with the data as the
  function leaves it. An exception of \<^verbatim>\<open>acquire\<close>, of \<^verbatim>\<open>func\<close> or of \<^verbatim>\<open>release\<close> leaves
  \<^verbatim>\<open>query\<close> at once: the body has no \<^verbatim>\<open>try\<close>.
\<close>

definition query ::
  "'d instants \<Rightarrow> instant \<Rightarrow> ('d \<Rightarrow> (error + 'r) \<times> 'd) \<Rightarrow> 'd TimeCapsuleState
     \<Rightarrow> ((error + 'r) \<times> 'd TimeCapsuleState) option" where
  "query h this func s =
     (case acquire h this s of
        None \<Rightarrow> None
      | Some (Inl e, s1) \<Rightarrow> Some (Inl e, s1)
      | Some (Inr d, s1) \<Rightarrow>
         (case func d of
            (Inl e, d') \<Rightarrow> Some (Inl e, s1\<lparr>data := d'\<rparr>)
          | (Inr result, d') \<Rightarrow>
             (case release this (s1\<lparr>data := d'\<rparr>) of
                (Inl e, s2) \<Rightarrow> Some (Inl e, s2)
              | (Inr u, s2) \<Rightarrow> Some (Inr result, s2))))"

text \<open>
  \<^verbatim>\<open>create\<close> and \<^verbatim>\<open>modify\<close> construct instants. A capsule is the store of its instants,
  the number of instants constructed so far (the next fresh reference) and the shared
  state. \<^verbatim>\<open>discard\<close> is the thunk of the root: it drops its argument.
\<close>

record 'd capsule =
  instants :: "'d instants"
  constructed :: nat
  state :: "'d TimeCapsuleState"

definition discard :: "'d \<Rightarrow> 'd outcome" where
  "discard arg = Returns arg"

definition create :: "'d \<Rightarrow> instant \<times> 'd capsule" where
  "create d =
     (let root = \<lparr>parent = None, undoChange = discard, redoChange = discard, generation = 0\<rparr>
      in (0, \<lparr>instants = (\<lambda>_. root), constructed = 1,
              state = \<lparr>data = d, currentInstant = Some 0, acquisitionCount = 0\<rparr>\<rparr>))"

definition modify ::
  "instant \<Rightarrow> ('d \<Rightarrow> 'd outcome) \<Rightarrow> ('d \<Rightarrow> 'd outcome) \<Rightarrow> 'd capsule
     \<Rightarrow> instant \<times> 'd capsule" where
  "modify this doChange undoChange' c =
     (let child = \<lparr>parent = Some this, undoChange = undoChange', redoChange = doChange,
                   generation = generation (instants c this) + 1\<rparr>
      in (constructed c,
          c\<lparr>instants := (instants c)(constructed c := child),
            constructed := constructed c + 1\<rparr>))"

subsection \<open>The history tree\<close>

text \<open>
  \<open>instantOf h r a\<close>: the instant \<open>a\<close> belongs to the capsule with root \<open>r\<close>, that is,
  \<open>a\<close> is reached from \<open>r\<close> by \<^verbatim>\<open>parent\<close> links and its generation is its depth. The root
  has no parent and generation 0, as \<^verbatim>\<open>create\<close> builds it; a child has generation one
  more than its parent, as \<^verbatim>\<open>modify\<close> builds it.
\<close>

inductive instantOf :: "'d instants \<Rightarrow> instant \<Rightarrow> instant \<Rightarrow> bool" for h r where
  root: "parent (h r) = None \<Longrightarrow> generation (h r) = 0 \<Longrightarrow> instantOf h r r"
| child: "parent (h a) = Some p \<Longrightarrow> instantOf h r p
           \<Longrightarrow> generation (h a) = Suc (generation (h p)) \<Longrightarrow> instantOf h r a"

text \<open>\<open>nthAncestor h k a\<close> is the instant \<open>k\<close> parent links above \<open>a\<close>, if there is one.\<close>

primrec nthAncestor :: "'d instants \<Rightarrow> nat \<Rightarrow> instant \<Rightarrow> instant option" where
  "nthAncestor h 0 a = Some a"
| "nthAncestor h (Suc k) a =
     (case parent (h a) of None \<Rightarrow> None | Some p \<Rightarrow> nthAncestor h k p)"

text \<open>\<open>isAncestor h c a\<close>: \<open>c\<close> is \<open>a\<close> or lies above \<open>a\<close>.\<close>

definition isAncestor :: "'d instants \<Rightarrow> instant \<Rightarrow> instant \<Rightarrow> bool" where
  "isAncestor h c a = (\<exists>k. nthAncestor h k a = Some c)"

text \<open>
  \<open>isLastCommonAncestor h a b c\<close>: \<open>c\<close> is above both and every instant above both is
  above \<open>c\<close>.
\<close>

definition isLastCommonAncestor :: "'d instants \<Rightarrow> instant \<Rightarrow> instant \<Rightarrow> instant \<Rightarrow> bool" where
  "isLastCommonAncestor h a b c =
     (isAncestor h c a \<and> isAncestor h c b
      \<and> (\<forall>c'. isAncestor h c' a \<and> isAncestor h c' b \<longrightarrow> isAncestor h c' c))"

text \<open>
  \<open>pathUp h k a\<close>: the \<open>k\<close> instants met when walking up from \<open>a\<close>, \<open>a\<close> first.
\<close>

primrec pathUp :: "'d instants \<Rightarrow> nat \<Rightarrow> instant \<Rightarrow> instant list" where
  "pathUp h 0 a = []"
| "pathUp h (Suc k) a =
     a # (case parent (h a) of None \<Rightarrow> [] | Some p \<Rightarrow> pathUp h k p)"

text \<open>
  \<open>acquireOutcome h undoPath redoPath d\<close>: how the two loops of \<^verbatim>\<open>acquire\<close> end when the
  undo thunks of \<open>undoPath\<close> and then the redo thunks of \<open>redoPath\<close> are called in order on
  the data \<open>d\<close>.
\<close>

definition acquireOutcome ::
  "'d instants \<Rightarrow> instant list \<Rightarrow> instant list \<Rightarrow> 'd \<Rightarrow> 'd outcome" where
  "acquireOutcome h undoPath redoPath d =
     (case undoAll h undoPath d of
        Throws msg d1 \<Rightarrow> Throws msg d1
      | Returns d1 \<Rightarrow> redoAll h redoPath d1)"

text \<open>
  \<open>inverseThunks h r\<close>: for every instant of the capsule, undo and redo return and are
  inverses of each other.
\<close>

definition inverseThunks :: "'d instants \<Rightarrow> instant \<Rightarrow> bool" where
  "inverseThunks h r =
     (\<forall>a d. instantOf h r a \<longrightarrow>
        (\<exists>d'. redoChange (h a) d = Returns d' \<and> undoChange (h a) d' = Returns d)
        \<and> (\<exists>d'. undoChange (h a) d = Returns d' \<and> redoChange (h a) d' = Returns d))"

text \<open>
  \<open>builtCapsule c\<close>: what \<^verbatim>\<open>create\<close> establishes and \<^verbatim>\<open>modify\<close> keeps. Every instant
  constructed so far belongs to the history tree of the root, which is the instant 0, and
  parent links stay among the instants constructed.
\<close>

definition builtCapsule :: "'d capsule \<Rightarrow> bool" where
  "builtCapsule c =
     (0 < constructed c
      \<and> (\<forall>a. a < constructed c \<longrightarrow> instantOf (instants c) 0 a)
      \<and> (\<forall>a p. parent (instants c a) = Some p \<longrightarrow> a < constructed c \<and> p < constructed c))"

text \<open>
  The scenario of the round trip: acquire \<open>x\<close>, release it, acquire \<open>y\<close>, release it,
  acquire \<open>x\<close> again. The result is the data returned by the first and by the last
  \<^verbatim>\<open>acquire\<close>, or \<open>None\<close> when one of the five calls raises or does not return.
\<close>

definition roundTrip ::
  "'d instants \<Rightarrow> instant \<Rightarrow> instant \<Rightarrow> 'd TimeCapsuleState \<Rightarrow> ('d \<times> 'd) option" where
  "roundTrip h x y s =
     (case acquire h x s of
        Some (Inr d1, s1) \<Rightarrow>
          (case release x s1 of
             (Inr u, s2) \<Rightarrow>
               (case acquire h y s2 of
                  Some (Inr d3, s3) \<Rightarrow>
                    (case release y s3 of
                       (Inr u', s4) \<Rightarrow>
                         (case acquire h x s4 of
                            Some (Inr d5, s5) \<Rightarrow> Some (d1, d5)
                          | _ \<Rightarrow> None)
                     | _ \<Rightarrow> None)
                | _ \<Rightarrow> None)
           | _ \<Rightarrow> None)
      | _ \<Rightarrow> None)"

subsection \<open>Example capsules\<close>

text \<open>
  The history tree drawn in the source: the root 0, then A = 1, B = 2 and C = 3 in a line,
  and D = 4 with its child E = 5 branching off at A. In the first capsule the data is a log
  and every thunk appends its own name to it, so the data records which thunks ran and in
  which order.
\<close>

datatype thunkCall = Undo instant | Redo instant

definition logging :: "thunkCall \<Rightarrow> thunkCall list \<Rightarrow> thunkCall list outcome" where
  "logging call log = Returns (log @ [call])"

definition loggingChild :: "instant \<Rightarrow> thunkCall list capsule \<Rightarrow> thunkCall list capsule" where
  "loggingChild p c = snd (modify p (logging (Redo (constructed c))) (logging (Undo (constructed c))) c)"

definition loggingCapsule :: "thunkCall list capsule" where
  "loggingCapsule =
     loggingChild 4 (loggingChild 1 (loggingChild 2 (loggingChild 1 (loggingChild 0
       (snd (create []))))))"

text \<open>
  In the second capsule the data is an integer, the change of instant \<open>n\<close> adds \<open>n\<close> and its
  undo subtracts \<open>n\<close>.
\<close>

definition adding :: "int \<Rightarrow> int \<Rightarrow> int outcome" where
  "adding n d = Returns (d + n)"

definition addingChild :: "instant \<Rightarrow> int capsule \<Rightarrow> int capsule" where
  "addingChild p c =
     snd (modify p (adding (int (constructed c))) (adding (- int (constructed c))) c)"

definition addingCapsule :: "int capsule" where
  "addingCapsule =
     addingChild 4 (addingChild 1 (addingChild 2 (addingChild 1 (addingChild 0
       (snd (create 0))))))"

text \<open>
  In the third capsule the root 0 has the child 1, whose change adds 1, and the child 2 of
  1, whose change adds 2 and then throws; the undo thunks subtract again.
\<close>

definition addingThenThrowing :: "int \<Rightarrow> string \<Rightarrow> int \<Rightarrow> int outcome" where
  "addingThenThrowing n msg d = Throws msg (d + n)"

definition throwingCapsule :: "int capsule" where
  "throwingCapsule =
     snd (modify 1 (addingThenThrowing 2 ''boom'') (adding (- 2))
       (snd (modify 0 (adding 1) (adding (- 1)) (snd (create 0)))))"

text \<open>A function for \<^verbatim>\<open>query\<close> that raises and leaves the data as it is.\<close>

definition raising :: "int \<Rightarrow> (error + int) \<times> int" where
  "raising d = (Inl (Thrown ''failure''), d)"

section \<open>Instruction indices: what the code computes\<close>

lemma indexModulus_value: "indexModulus = 2 ^ 30"
  by (simp add: indexModulus_def jsShiftLeft_def)

lemma generateInstructionIndex_step:
  assumes "0 \<le> c"
  shows "generateInstructionIndex c = (c, (c + 1) mod 2 ^ 30)"
  using assms
  by (simp add: generateInstructionIndex_def jsRemainder_def indexModulus_value
      signed_modulo_int_def sgn_if)

lemma newTaskInstruction_index:
  "index (instructions (snd (newTaskInstruction t d w)) (fst (newTaskInstruction t d w)))
     = taskCounter w"
  by (simp add: newTaskInstruction_def generateInstructionIndex_def)

lemma newTaskInstruction_counter:
  "0 \<le> taskCounter w
     \<Longrightarrow> taskCounter (snd (newTaskInstruction t d w)) = (taskCounter w + 1) mod 2 ^ 30"
  by (simp add: newTaskInstruction_def generateInstructionIndex_step)

text \<open>
  Claim C2. Successive constructions are said to receive the previous index plus one,
  reduced modulo \<open>2^31 - 1\<close>. With the counter at \<open>2^30 - 1\<close>, the next instruction
  constructed gets the index \<open>2^30 - 1\<close> and the one after it the index 0, whereas the
  previous index plus one reduced modulo \<open>2^31 - 1\<close> is \<open>2^30\<close>: the divisor
  \<^verbatim>\<open>1 << 31 - 1\<close> is \<open>2^30\<close>.
\<close>

theorem construction_wraps_at_2_30:
  "index (instructions (snd (newTaskInstruction () 0 worldBeforeWrap)) 0) = 2 ^ 30 - 1
   \<and> index (instructions (snd (newTaskInstruction () 1
              (snd (newTaskInstruction () 0 worldBeforeWrap)))) 1) = 0
   \<and> generateInstructionIndex (2 ^ 30 - 1) = (2 ^ 30 - 1, 0)
   \<and> indexModulus = 2 ^ 30
   \<and> ((2 ^ 30 - 1) + 1) mod (2 ^ 31 - 1) = (2 ^ 30 :: int)"
  by (simp add: newTaskInstruction_def worldBeforeWrap_def emptyWorld_def
      generateInstructionIndex_step indexModulus_value)

section \<open>Task instructions: output transfer\<close>

lemma transferComponents_elsewhere:
  "a \<noteq> target \<Longrightarrow> transferComponents source target cs dh a = dh a"
  by (induction cs arbitrary: dh) simp_all

lemma transferComponents_same_object:
  "transferComponents target target cs dh = dh"
  by (induction cs arbitrary: dh)
     (simp_all add: setComponentUnchecked_def getComponentUnchecked_def)

lemma transferComponents_target:
  "transferComponents source target cs dh target c
     = (if c \<in> set cs then dh source c else dh target c)"
proof (cases "source = target")
  case True
  then show ?thesis by (simp add: transferComponents_same_object)
next
  case False
  then show ?thesis
    by (induction cs arbitrary: dh)
       (simp_all add: setComponentUnchecked_def getComponentUnchecked_def)
qed

lemma transferComponents_source:
  "transferComponents source target cs dh source = dh source"
proof (cases "source = target")
  case True
  then show ?thesis by (simp add: transferComponents_same_object)
next
  case False
  then show ?thesis by (simp add: transferComponents_elsewhere)
qed

text \<open>
  Claim C8. \<open>i.transferOutput(s)\<close> raises exactly when the dependency map of \<open>s\<close> has no
  entry for \<open>i\<close>. Otherwise, with \<open>cs\<close> the components of that entry, the data of \<open>s\<close>
  afterwards holds for each component in \<open>cs\<close> the value it has in the data of \<open>i\<close> and for
  every other component the value it had before; the data of \<open>i\<close> and every other model
  data are as before.
\<close>

theorem transferOutput_copies_edge_components:
  "((\<exists>e. transferOutput ih i s dh = Inl e)
      \<longleftrightarrow> dependencies (ih s) (index (ih i)) = None)
   \<and> (\<forall>k cs. dependencies (ih s) (index (ih i)) = Some (k, cs) \<longrightarrow>
        (\<exists>dh'. transferOutput ih i s dh = Inr dh'
           \<and> (\<forall>c. dh' (TaskInstruction.data (ih s)) c
                    = (if c \<in> set cs then dh (TaskInstruction.data (ih i)) c
                       else dh (TaskInstruction.data (ih s)) c))
           \<and> dh' (TaskInstruction.data (ih i)) = dh (TaskInstruction.data (ih i))
           \<and> (\<forall>a. a \<noteq> TaskInstruction.data (ih s) \<longrightarrow> dh' a = dh a)))"
proof (cases "dependencies (ih s) (index (ih i))")
  case None
  then show ?thesis by (simp add: transferOutput_def)
next
  case (Some entry)
  then show ?thesis
    by (cases entry)
       (simp add: transferOutput_def transferComponents_target transferComponents_source
          transferComponents_elsewhere)
qed

lemma threeInstructions_simps:
  "threeInstructions 0 =
     \<lparr>index = 0, task = (), data = 0, dependencies = Map.empty,
      invertedDependencies = Map.empty\<rparr>"
  "threeInstructions 1 =
     \<lparr>index = 1, task = (), data = 1, dependencies = Map.empty,
      invertedDependencies = Map.empty\<rparr>"
  "threeInstructions (Suc 0) =
     \<lparr>index = 1, task = (), data = 1, dependencies = Map.empty,
      invertedDependencies = Map.empty\<rparr>"
  "threeInstructions 2 =
     \<lparr>index = 2, task = (), data = 2, dependencies = Map.empty,
      invertedDependencies = Map.empty\<rparr>"
  by (simp_all add: threeInstructions_def newTaskInstruction_def emptyWorld_def
      generateInstructionIndex_step jsRemainder_def)

lemma linkedInstructions_simps:
  "linkedInstructions 0 =
     \<lparr>index = 0, task = (), data = 0, dependencies = Map.empty,
      invertedDependencies = [2 \<mapsto> 2]\<rparr>"
  "linkedInstructions 1 =
     \<lparr>index = 1, task = (), data = 1, dependencies = Map.empty,
      invertedDependencies = [2 \<mapsto> 2]\<rparr>"
  "linkedInstructions 2 =
     \<lparr>index = 2, task = (), data = 2,
      dependencies = [0 \<mapsto> (0, [DataGraph]), 1 \<mapsto> (1, [IO])],
      invertedDependencies = Map.empty\<rparr>"
  by (simp_all add: linkedInstructions_def addDependency_def Let_def threeInstructions_simps
      addComponent_def addInstruction_def)

theorem transferOutput_copies_edge_components_witness:
  "dependencies (linkedInstructions 2) (index (linkedInstructions 0)) = Some (0, [DataGraph])
   \<and> (\<exists>dh'. transferOutput linkedInstructions 0 2 exampleData = Inr dh'
         \<and> dh' 2 = [DataGraph \<mapsto> 1, IO \<mapsto> 2, UI \<mapsto> 3]
         \<and> dh' 0 = [DataGraph \<mapsto> 1, IO \<mapsto> 1])
   \<and> dependencies (linkedInstructions 0) (index (linkedInstructions 2)) = None
   \<and> (\<exists>e. transferOutput linkedInstructions 2 0 exampleData = Inl e)"
proof -
  have edge: "dependencies (linkedInstructions 2) (index (linkedInstructions 0))
      = Some (0, [DataGraph])"
    by (simp add: linkedInstructions_simps)
  have none: "dependencies (linkedInstructions 0) (index (linkedInstructions 2)) = None"
    by (simp add: linkedInstructions_simps)
  from transferOutput_copies_edge_components [of linkedInstructions 0 2 exampleData] edge
  obtain dh' where dh': "transferOutput linkedInstructions 0 2 exampleData = Inr dh'"
    "\<forall>c. dh' (TaskInstruction.data (linkedInstructions 2)) c
          = (if c \<in> set [DataGraph] then exampleData (TaskInstruction.data (linkedInstructions 0)) c
             else exampleData (TaskInstruction.data (linkedInstructions 2)) c)"
    "dh' (TaskInstruction.data (linkedInstructions 0))
       = exampleData (TaskInstruction.data (linkedInstructions 0))"
    by blast
  from dh'(2) have "dh' 2 = [DataGraph \<mapsto> 1, IO \<mapsto> 2, UI \<mapsto> 3]"
    by (auto simp: linkedInstructions_simps exampleData_def fun_eq_iff)
  moreover from dh'(3) have "dh' 0 = [DataGraph \<mapsto> 1, IO \<mapsto> 1]"
    by (simp add: linkedInstructions_simps exampleData_def)
  moreover from transferOutput_copies_edge_components [of linkedInstructions 2 0 exampleData] none
  have "\<exists>e. transferOutput linkedInstructions 2 0 exampleData = Inl e" by simp
  ultimately show ?thesis using edge none dh'(1) by simp
qed

section \<open>Task instructions: dependencies\<close>

lemma set_addComponent: "set (addComponent c cs) = insert c (set cs)"
  by (auto simp: addComponent_def)

lemma addInstruction_contains: "key \<in> dom (addInstruction key element s)"
  by (simp add: addInstruction_def)

lemma addInstruction_keeps: "k \<in> dom s \<Longrightarrow> k \<in> dom (addInstruction key element s)"
  by (auto simp: addInstruction_def)

lemma addDependency_index: "index (addDependency s p c ih a) = index (ih a)"
  by (simp add: addDependency_def Let_def)

lemma addDependency_inverted_grows:
  "k \<in> dom (invertedDependencies (ih a))
     \<Longrightarrow> k \<in> dom (invertedDependencies (addDependency s p c ih a))"
  unfolding addDependency_def Let_def
  by (cases "a = p"; cases "a = s") (simp_all add: addInstruction_keeps)

lemma addDependency_inverted_new:
  "index (ih s) \<in> dom (invertedDependencies (addDependency s p c ih p))"
  unfolding addDependency_def Let_def
  by (cases "p = s") (simp_all add: addInstruction_contains)

lemma addDependency_dependencies:
  "dependencies (addDependency s p c ih a) =
     (if a = s
      then (dependencies (ih s))(index (ih p) \<mapsto>
             (p, addComponent c (case dependencies (ih s) (index (ih p)) of
                                   None \<Rightarrow> [] | Some (k, cs) \<Rightarrow> cs)))
      else dependencies (ih a))"
  unfolding addDependency_def Let_def
  by (cases "a = p"; cases "a = s") simp_all

lemma addDependency_invertedDependencies:
  "invertedDependencies (addDependency s p c ih a) =
     (if a = p
      then addInstruction (index (ih s)) s (invertedDependencies (ih p))
      else invertedDependencies (ih a))"
  unfolding addDependency_def Let_def
  by (cases "a = p"; cases "a = s") simp_all

lemma addDependency_dependencies_grow:
  "k \<in> dom (dependencies (ih a)) \<Longrightarrow> k \<in> dom (dependencies (addDependency s p c ih a))"
  by (auto simp: addDependency_dependencies)

lemma addDependency_dependency_new:
  "index (ih p) \<in> dom (dependencies (addDependency s p c ih s))"
  by (simp add: addDependency_dependencies)

lemma dom_addInstruction: "dom (addInstruction key element s) = insert key (dom s)"
  by (auto simp: addInstruction_def)

lemma addDependency_symmetricEdges:
  assumes "symmetricEdges ih"
  shows "symmetricEdges (addDependency s p c ih)"
  unfolding symmetricEdges_def
proof (intro conjI allI impI)
  fix a key q cs
  assume entry: "dependencies (addDependency s p c ih a) key = Some (q, cs)"
  show "index (addDependency s p c ih a) \<in> dom (invertedDependencies (addDependency s p c ih q))"
  proof (cases "a = s \<and> key = index (ih p)")
    case True
    with entry have "q = p" by (simp add: addDependency_dependencies)
    with True show ?thesis by (simp add: addDependency_index addDependency_inverted_new)
  next
    case False
    with entry have "dependencies (ih a) key = Some (q, cs)"
      by (auto simp: addDependency_dependencies split: if_splits)
    with assms have "index (ih a) \<in> dom (invertedDependencies (ih q))"
      unfolding symmetricEdges_def by blast
    then show ?thesis by (simp add: addDependency_index addDependency_inverted_grows)
  qed
next
  fix q key a
  assume entry: "invertedDependencies (addDependency s p c ih q) key = Some a"
  have old: "index (addDependency s p c ih q) \<in> dom (dependencies (addDependency s p c ih a))"
    if "invertedDependencies (ih q) key = Some a"
  proof -
    from assms that have "index (ih q) \<in> dom (dependencies (ih a))"
      unfolding symmetricEdges_def by blast
    then show ?thesis by (simp only: addDependency_index addDependency_dependencies_grow)
  qed
  show "index (addDependency s p c ih q) \<in> dom (dependencies (addDependency s p c ih a))"
  proof (cases "q = p \<and> key \<notin> dom (invertedDependencies (ih p))")
    case True
    with entry have "key = index (ih s)" and "a = s"
      by (auto simp: addDependency_invertedDependencies addInstruction_def split: if_splits)
    with True show ?thesis
      by (simp only: addDependency_index addDependency_dependency_new)
  next
    case False
    with entry have "invertedDependencies (ih q) key = Some a"
      by (auto simp: addDependency_invertedDependencies addInstruction_def split: if_splits)
    then show ?thesis by (rule old)
  qed
qed

text \<open>
  Claim C9. After \<open>s.addDependency(p, c)\<close> the entry of \<open>s\<close> for \<open>p\<close> holds \<open>c\<close> together
  with the components it held before (none when there was no entry), the entries of \<open>s\<close>
  under other keys are as before, and the inverted dependencies of \<open>p\<close> contain \<open>s\<close>.
  Nothing else changes: the dependencies of every other instruction and the inverted
  dependencies of every instruction but \<open>p\<close> are as before, and \<open>p\<close> gains no inverted
  entry but the one for \<open>s\<close>. Hence a store whose dependency edges and inverted edges
  mirror each other, in both directions, stays so, and calls with the same predecessor
  accumulate components. Keys are instruction indices, which the call does not change.
\<close>

theorem addDependency_accumulates:
  "(\<exists>cs'. dependencies (addDependency s p c ih s) (index (ih p)) = Some (p, cs')
          \<and> set cs' = insert c (set (case dependencies (ih s) (index (ih p)) of
                                        None \<Rightarrow> [] | Some (k, cs) \<Rightarrow> cs)))
   \<and> (\<forall>key. key \<noteq> index (ih p) \<longrightarrow>
         dependencies (addDependency s p c ih s) key = dependencies (ih s) key)
   \<and> index (ih s) \<in> dom (invertedDependencies (addDependency s p c ih p))
   \<and> (\<forall>a. index (addDependency s p c ih a) = index (ih a))
   \<and> (\<forall>a. a \<noteq> s \<longrightarrow> dependencies (addDependency s p c ih a) = dependencies (ih a))
   \<and> (\<forall>a. a \<noteq> p \<longrightarrow>
         invertedDependencies (addDependency s p c ih a) = invertedDependencies (ih a))
   \<and> dom (invertedDependencies (addDependency s p c ih p))
       = insert (index (ih s)) (dom (invertedDependencies (ih p)))
   \<and> (symmetricEdges ih \<longrightarrow> symmetricEdges (addDependency s p c ih))"
  by (simp add: addDependency_dependencies set_addComponent addDependency_inverted_new
      addDependency_index addDependency_symmetricEdges addDependency_invertedDependencies
      dom_addInstruction)

lemma threeInstructions_no_edges:
  "dependencies (threeInstructions a) = Map.empty"
  "invertedDependencies (threeInstructions a) = Map.empty"
  by (simp_all add: threeInstructions_def newTaskInstruction_def emptyWorld_def
      generateInstructionIndex_def)

lemma linkedInstructions_symmetricEdges: "symmetricEdges linkedInstructions"
proof -
  have "symmetricEdges threeInstructions"
    by (simp add: symmetricEdges_def threeInstructions_no_edges)
  then have "symmetricEdges (addDependency 2 0 DataGraph threeInstructions)"
    by (rule addDependency_symmetricEdges)
  then show ?thesis
    unfolding linkedInstructions_def by (rule addDependency_symmetricEdges)
qed

theorem addDependency_accumulates_witness:
  "symmetricEdges linkedInstructions
   \<and> dependencies (linkedInstructions 2) (index (linkedInstructions 0)) = Some (0, [DataGraph])
   \<and> invertedDependencies (linkedInstructions 0) 2 = Some 2
   \<and> (\<exists>cs'. dependencies (addDependency 2 0 IO linkedInstructions 2) 0 = Some (0, cs')
          \<and> set cs' = {DataGraph, IO})
   \<and> dependencies (addDependency 2 0 IO linkedInstructions 2) 1 = Some (1, [IO])
   \<and> dom (invertedDependencies (addDependency 2 0 IO linkedInstructions 0)) = {2}
   \<and> dependencies (addDependency 2 0 IO linkedInstructions 0) = Map.empty
   \<and> invertedDependencies (addDependency 2 0 IO linkedInstructions 2) = Map.empty
   \<and> symmetricEdges (addDependency 2 0 IO linkedInstructions)"
proof -
  have edge: "dependencies (linkedInstructions 2) (index (linkedInstructions 0))
      = Some (0, [DataGraph])"
    by (simp add: linkedInstructions_simps)
  have inv0: "invertedDependencies (linkedInstructions 0) 2 = Some 2"
    by (simp add: linkedInstructions_simps)
  note inst = addDependency_accumulates [of 2 0 IO linkedInstructions]
  from inst edge
  have 1: "\<exists>cs'. dependencies (addDependency 2 0 IO linkedInstructions 2) 0 = Some (0, cs')
          \<and> set cs' = {DataGraph, IO}"
    by (auto simp: linkedInstructions_simps)
  from inst have "(1::int) \<noteq> index (linkedInstructions 0) \<longrightarrow>
      dependencies (addDependency 2 0 IO linkedInstructions 2) 1
      = dependencies (linkedInstructions 2) 1" by blast
  then have 2: "dependencies (addDependency 2 0 IO linkedInstructions 2) 1 = Some (1, [IO])"
    by (simp add: linkedInstructions_simps)
  from inst have "dom (invertedDependencies (addDependency 2 0 IO linkedInstructions 0))
      = insert (index (linkedInstructions 2)) (dom (invertedDependencies (linkedInstructions 0)))"
    by blast
  then have 3: "dom (invertedDependencies (addDependency 2 0 IO linkedInstructions 0)) = {2}"
    by (simp add: linkedInstructions_simps)
  from inst have "(0::instruction) \<noteq> 2 \<longrightarrow>
      dependencies (addDependency 2 0 IO linkedInstructions 0)
      = dependencies (linkedInstructions 0)" by blast
  then have 4: "dependencies (addDependency 2 0 IO linkedInstructions 0) = Map.empty"
    by (simp add: linkedInstructions_simps)
  from inst have "(2::instruction) \<noteq> 0 \<longrightarrow>
      invertedDependencies (addDependency 2 0 IO linkedInstructions 2)
      = invertedDependencies (linkedInstructions 2)" by blast
  then have 5: "invertedDependencies (addDependency 2 0 IO linkedInstructions 2) = Map.empty"
    by (simp add: linkedInstructions_simps)
  from inst linkedInstructions_symmetricEdges
  have 6: "symmetricEdges (addDependency 2 0 IO linkedInstructions)" by blast
  from linkedInstructions_symmetricEdges edge inv0 1 2 3 4 5 6 show ?thesis by blast
qed
section \<open>Priority generator: the sawtooth\<close>

lemma nextPriority_explicit:
  "nextPriority \<lparr>hi = h, lo = l, step = s, current = c\<rparr> =
     (c, if c > h - s + 1 \<and> c > l
         then \<lparr>hi = h, lo = l, step = s, current = c - 1\<rparr>
         else \<lparr>hi = h, lo = l, step = (if s + 1 > h - l + 1 then 1 else s + 1), current = h\<rparr>)"
  by (simp add: nextPriority_def Let_def)

lemma notified_3_and_minus_2:
  "notifyPriorityExists (- 2) (notifyPriorityExists 3 newPriorityGenerator)
   = \<lparr>hi = 3, lo = - 2, step = 1, current = 3\<rparr>"
  by (simp add: notifyPriorityExists_def newPriorityGenerator_def)

text \<open>
  Claim C7. For a fresh generator, after \<^verbatim>\<open>notifyPriorityExists(3)\<close> and then
  \<^verbatim>\<open>notifyPriorityExists(-2)\<close>, the first 42 calls to \<^verbatim>\<open>next()\<close> return the runs
  3; 3,2; 3,2,1; 3,2,1,0; 3,2,1,0,-1; 3,2,1,0,-1,-2 and then the same 21 values again.
\<close>

theorem priority_sequence_between_minus_2_and_3:
  "nextPriorities 42 (notifyPriorityExists (- 2) (notifyPriorityExists 3 newPriorityGenerator))
   = [3, 3, 2, 3, 2, 1, 3, 2, 1, 0, 3, 2, 1, 0, - 1, 3, 2, 1, 0, - 1, - 2,
      3, 3, 2, 3, 2, 1, 3, 2, 1, 0, 3, 2, 1, 0, - 1, 3, 2, 1, 0, - 1, - 2]"
  unfolding notified_3_and_minus_2
  by (simp add: eval_nat_numeral nextPriority_explicit)

section \<open>Time capsule: create and modify build history trees\<close>

lemma create_builtCapsule: "builtCapsule (snd (create d))"
proof -
  let ?root = "\<lparr>parent = None, undoChange = discard, redoChange = discard,
                generation = 0\<rparr> :: 'a TimeCapsule"
  have "instantOf (\<lambda>_. ?root) 0 0" by (rule instantOf.root) simp_all
  then show ?thesis
    by (simp add: builtCapsule_def create_def Let_def)
qed

lemma instantOf_after_modify:
  assumes built: "builtCapsule c" and a: "instantOf (instants c) 0 a"
  shows "instantOf (instants (snd (modify this doChange undoChange' c))) 0 a"
  using a
proof (induction rule: instantOf.induct)
  case root
  from built have ne: "0 \<noteq> constructed c" unfolding builtCapsule_def by simp
  show ?case
    by (rule instantOf.root) (use root ne in \<open>simp_all add: modify_def Let_def\<close>)
next
  case (child a p)
  from built child.hyps(1) have "a < constructed c \<and> p < constructed c"
    unfolding builtCapsule_def by blast
  then have ne: "a \<noteq> constructed c" "p \<noteq> constructed c" by simp_all
  show ?case
    by (rule instantOf.child [where p = p])
       (use child ne in \<open>simp_all add: modify_def Let_def\<close>)
qed

lemma modify_builtCapsule:
  assumes built: "builtCapsule c" and lt: "this < constructed c"
  shows "builtCapsule (snd (modify this doChange undoChange' c))"
    and "fst (modify this doChange undoChange' c) = constructed c"
    and "constructed (snd (modify this doChange undoChange' c)) = constructed c + 1"
    and "state (snd (modify this doChange undoChange' c)) = state c"
proof -
  let ?c' = "snd (modify this doChange undoChange' c)"
  show n': "constructed ?c' = constructed c + 1" by (simp add: modify_def Let_def)
  show "fst (modify this doChange undoChange' c) = constructed c"
    by (simp add: modify_def Let_def)
  show "state ?c' = state c" by (simp add: modify_def Let_def)
  have old: "instantOf (instants ?c') 0 a" if "a < constructed c" for a
    using built that instantOf_after_modify [OF built] unfolding builtCapsule_def by blast
  have new: "instantOf (instants ?c') 0 (constructed c)"
  proof (rule instantOf.child [where p = this])
    show "parent (instants ?c' (constructed c)) = Some this"
      by (simp add: modify_def Let_def)
    show "instantOf (instants ?c') 0 this" using old lt by blast
    show "generation (instants ?c' (constructed c)) = Suc (generation (instants ?c' this))"
      using lt by (simp add: modify_def Let_def)
  qed
  have links: "a < constructed ?c' \<and> p < constructed ?c'"
    if "parent (instants ?c' a) = Some p" for a p
  proof (cases "a = constructed c")
    case True
    with that lt show ?thesis by (simp add: modify_def Let_def)
  next
    case False
    with that have "parent (instants c a) = Some p" by (simp add: modify_def Let_def)
    with built have "a < constructed c \<and> p < constructed c"
      unfolding builtCapsule_def by blast
    with n' show ?thesis by simp
  qed
  show "builtCapsule ?c'"
    unfolding builtCapsule_def
  proof (intro conjI allI impI)
    show "0 < constructed ?c'" using n' by simp
  next
    fix a assume "a < constructed ?c'"
    with n' have "a < constructed c \<or> a = constructed c" by auto
    with old new show "instantOf (instants ?c') 0 a" by blast
  next
    fix a p assume "parent (instants ?c' a) = Some p"
    with links show "a < constructed ?c'" by blast
  next
    fix a p assume "parent (instants ?c' a) = Some p"
    with links show "p < constructed ?c'" by blast
  qed
qed

section \<open>Time capsule: the history tree\<close>

lemma instantOf_root:
  "instantOf h r a \<Longrightarrow> parent (h r) = None \<and> generation (h r) = 0"
  by (induction rule: instantOf.induct) auto

lemma instantOf_generation_0:
  assumes "instantOf h r a" and "generation (h a) = 0"
  shows "a = r"
  using assms by (cases rule: instantOf.cases) auto

lemma instantOf_parent:
  assumes "instantOf h r a" and "parent (h a) = Some p"
  shows "instantOf h r p \<and> generation (h a) = Suc (generation (h p))"
  using assms
proof (cases rule: instantOf.cases)
  case root
  with assms show ?thesis by simp
next
  case (child p')
  with assms show ?thesis by simp
qed

lemma instantOf_has_parent:
  assumes "instantOf h r a" and "0 < generation (h a)"
  shows "\<exists>p. parent (h a) = Some p \<and> instantOf h r p
             \<and> generation (h a) = Suc (generation (h p))"
  using assms by (cases rule: instantOf.cases) auto

lemma nthAncestor_instantOf:
  "instantOf h r a \<Longrightarrow> nthAncestor h k a = Some c
     \<Longrightarrow> instantOf h r c \<and> generation (h c) + k = generation (h a)"
proof (induction k arbitrary: a)
  case 0
  then show ?case by simp
next
  case (Suc k)
  from Suc.prems(2) obtain p where p: "parent (h a) = Some p" "nthAncestor h k p = Some c"
    by (auto split: option.splits)
  from instantOf_parent [OF Suc.prems(1) p(1)]
  have "instantOf h r p" and "generation (h a) = Suc (generation (h p))" by auto
  with Suc.IH [OF _ p(2)] show ?case by simp
qed

lemma nthAncestor_exists:
  "instantOf h r a \<Longrightarrow> k \<le> generation (h a) \<Longrightarrow> \<exists>c. nthAncestor h k a = Some c"
proof (induction k arbitrary: a)
  case 0
  then show ?case by simp
next
  case (Suc k)
  then have "0 < generation (h a)" by simp
  from instantOf_has_parent [OF Suc.prems(1) this]
  obtain p where p: "parent (h a) = Some p" "instantOf h r p"
    "generation (h a) = Suc (generation (h p))" by auto
  with Suc.prems(2) have "k \<le> generation (h p)" by simp
  from Suc.IH [OF p(2) this] p(1) show ?case by simp
qed

lemma nthAncestor_add:
  "nthAncestor h (j + k) a =
     (case nthAncestor h j a of None \<Rightarrow> None | Some b \<Rightarrow> nthAncestor h k b)"
  by (induction j arbitrary: a) (auto split: option.splits)

lemma isAncestor_refl: "isAncestor h a a"
  unfolding isAncestor_def by (rule exI [of _ 0]) simp

lemma isAncestor_instantOf:
  "instantOf h r a \<Longrightarrow> isAncestor h c a
     \<Longrightarrow> instantOf h r c \<and> generation (h c) \<le> generation (h a)"
  unfolding isAncestor_def using nthAncestor_instantOf by fastforce

lemma isAncestor_antisym:
  assumes "instantOf h r a" and "isAncestor h c a" and "isAncestor h a c"
  shows "a = c"
proof -
  from assms(2) obtain k where k: "nthAncestor h k a = Some c"
    unfolding isAncestor_def by auto
  from assms(3) obtain j where j: "nthAncestor h j c = Some a"
    unfolding isAncestor_def by auto
  from nthAncestor_instantOf [OF assms(1) k]
  have c: "instantOf h r c" "generation (h c) + k = generation (h a)" by auto
  from nthAncestor_instantOf [OF c(1) j] have "generation (h a) + j = generation (h c)"
    by auto
  with c(2) have "k = 0" by simp
  with k show ?thesis by simp
qed

lemma isLastCommonAncestor_unique:
  assumes "instantOf h r a"
    and "isLastCommonAncestor h a b c" and "isLastCommonAncestor h b a c'"
  shows "c = c'"
proof -
  from assms(2,3) have "isAncestor h c c'" and "isAncestor h c' c"
    unfolding isLastCommonAncestor_def by auto
  moreover from assms(1,3) have "instantOf h r c'"
    unfolding isLastCommonAncestor_def using isAncestor_instantOf by blast
  ultimately show ?thesis using isAncestor_antisym by blast
qed

lemma isLastCommonAncestor_same:
  assumes "instantOf h r a"
    and "isLastCommonAncestor h a b c" and "isLastCommonAncestor h a b c'"
  shows "c = c'"
proof -
  from assms(2,3) have "isAncestor h c c'" and "isAncestor h c' c"
    unfolding isLastCommonAncestor_def by auto
  moreover from assms(1,3) have "instantOf h r c'"
    unfolding isLastCommonAncestor_def using isAncestor_instantOf by blast
  ultimately show ?thesis using isAncestor_antisym by blast
qed

section \<open>Time capsule: the loops return on the history tree\<close>

lemma raiseFirst_tree:
  "instantOf h r a \<Longrightarrow> n = generation (h a) - generation (h b)
     \<Longrightarrow> raiseFirst h (Some a) (Some b) = Some (Inr (nthAncestor h n a))"
proof (induction n arbitrary: a)
  case 0
  then show ?case by (subst raiseFirst.simps) simp
next
  case (Suc n)
  then have gt: "generation (h b) < generation (h a)" by simp
  then have "0 < generation (h a)" by simp
  from instantOf_has_parent [OF Suc.prems(1) this]
  obtain p where p: "parent (h a) = Some p" "instantOf h r p"
    "generation (h a) = Suc (generation (h p))" by auto
  with Suc.prems(2) have "n = generation (h p) - generation (h b)" by simp
  from Suc.IH [OF p(2) this] gt p(1) show ?case
    by (subst raiseFirst.simps) simp
qed

lemma raiseSecond_tree:
  "instantOf h r b \<Longrightarrow> n = generation (h b) - generation (h a)
     \<Longrightarrow> raiseSecond h (Some a) (Some b) = Some (Inr (nthAncestor h n b))"
proof (induction n arbitrary: b)
  case 0
  then show ?case by (subst raiseSecond.simps) simp
next
  case (Suc n)
  then have gt: "generation (h a) < generation (h b)" by simp
  then have "0 < generation (h b)" by simp
  from instantOf_has_parent [OF Suc.prems(1) this]
  obtain p where p: "parent (h b) = Some p" "instantOf h r p"
    "generation (h b) = Suc (generation (h p))" by auto
  with Suc.prems(2) have "n = generation (h p) - generation (h a)" by simp
  from Suc.IH [OF p(2) this] gt p(1) show ?case
    by (subst raiseSecond.simps) simp
qed

lemma raiseBoth_tree:
  "instantOf h r a \<Longrightarrow> instantOf h r b \<Longrightarrow> generation (h a) = n \<Longrightarrow> generation (h b) = n
     \<Longrightarrow> \<exists>k c. raiseBoth h (Some a) (Some b) = Some (Inr (Some c))
            \<and> nthAncestor h k a = Some c \<and> nthAncestor h k b = Some c
            \<and> (\<forall>j<k. nthAncestor h j a \<noteq> nthAncestor h j b)"
proof (induction n arbitrary: a b)
  case 0
  then have "a = r" and "b = r" using instantOf_generation_0 by blast+
  then have "raiseBoth h (Some a) (Some b) = Some (Inr (Some r))"
    by (subst raiseBoth.simps) simp
  with \<open>a = r\<close> \<open>b = r\<close> show ?case by (intro exI [of _ 0] exI [of _ r]) simp
next
  case (Suc n)
  show ?case
  proof (cases "a = b")
    case True
    then have "raiseBoth h (Some a) (Some b) = Some (Inr (Some a))"
      by (subst raiseBoth.simps) simp
    with True show ?thesis by (intro exI [of _ 0] exI [of _ a]) simp
  next
    case False
    from Suc.prems have "0 < generation (h a)" and "0 < generation (h b)" by simp_all
    from instantOf_has_parent [OF Suc.prems(1) this(1)]
    obtain pa where pa: "parent (h a) = Some pa" "instantOf h r pa"
      "generation (h a) = Suc (generation (h pa))" by auto
    from instantOf_has_parent [OF Suc.prems(2) \<open>0 < generation (h b)\<close>]
    obtain pb where pb: "parent (h b) = Some pb" "instantOf h r pb"
      "generation (h b) = Suc (generation (h pb))" by auto
    from pa(3) pb(3) Suc.prems have "generation (h pa) = n" "generation (h pb) = n"
      by simp_all
    from Suc.IH [OF pa(2) pb(2) this]
    obtain k c where kc: "raiseBoth h (Some pa) (Some pb) = Some (Inr (Some c))"
      "nthAncestor h k pa = Some c" "nthAncestor h k pb = Some c"
      "\<forall>j<k. nthAncestor h j pa \<noteq> nthAncestor h j pb" by blast
    from False pa(1) pb(1) kc(1)
    have 1: "raiseBoth h (Some a) (Some b) = Some (Inr (Some c))"
      by (subst raiseBoth.simps) simp
    have 2: "nthAncestor h (Suc k) a = Some c" "nthAncestor h (Suc k) b = Some c"
      using pa(1) pb(1) kc(2,3) by simp_all
    have 3: "\<forall>j<Suc k. nthAncestor h j a \<noteq> nthAncestor h j b"
    proof (intro allI impI)
      fix j assume "j < Suc k"
      show "nthAncestor h j a \<noteq> nthAncestor h j b"
      proof (cases j)
        case 0
        with False show ?thesis by simp
      next
        case (Suc j')
        with \<open>j < Suc k\<close> kc(4) have "nthAncestor h j' pa \<noteq> nthAncestor h j' pb" by simp
        with Suc pa(1) pb(1) show ?thesis by simp
      qed
    qed
    from 1 2 3 show ?thesis by blast
  qed
qed

lemma findLastCommonAncestor_tree:
  assumes a: "instantOf h r a" and b: "instantOf h r b"
  shows "\<exists>c. findLastCommonAncestor h (Some a) (Some b) = Some (Inr (Some c))
             \<and> isLastCommonAncestor h a b c"
proof -
  define ka where "ka = generation (h a) - generation (h b)"
  define kb where "kb = generation (h b) - generation (h a)"
  from nthAncestor_exists [OF a, of ka] obtain a1 where a1: "nthAncestor h ka a = Some a1"
    unfolding ka_def by auto
  from nthAncestor_exists [OF b, of kb] obtain b1 where b1: "nthAncestor h kb b = Some b1"
    unfolding kb_def by auto
  from nthAncestor_instantOf [OF a a1]
  have a1t: "instantOf h r a1" "generation (h a1) + ka = generation (h a)" by auto
  from nthAncestor_instantOf [OF b b1]
  have b1t: "instantOf h r b1" "generation (h b1) + kb = generation (h b)" by auto
  have step1: "raiseFirst h (Some a) (Some b) = Some (Inr (Some a1))"
    using raiseFirst_tree [OF a ka_def] a1 by simp
  have "kb = generation (h b) - generation (h a1)"
    using a1t(2) unfolding ka_def kb_def by linarith
  from raiseSecond_tree [OF b this]
  have step2: "raiseSecond h (Some a1) (Some b) = Some (Inr (Some b1))"
    using b1 by simp
  have same: "generation (h b1) = generation (h a1)"
    using a1t(2) b1t(2) unfolding ka_def kb_def by linarith
  from raiseBoth_tree [OF a1t(1) b1t(1) refl same]
  obtain k c where kc: "raiseBoth h (Some a1) (Some b1) = Some (Inr (Some c))"
    "nthAncestor h k a1 = Some c" "nthAncestor h k b1 = Some c"
    "\<forall>j<k. nthAncestor h j a1 \<noteq> nthAncestor h j b1" by blast
  have result: "findLastCommonAncestor h (Some a) (Some b) = Some (Inr (Some c))"
    by (simp add: findLastCommonAncestor_def step1 step2 kc(1))
  have ca: "nthAncestor h (ka + k) a = Some c"
    by (simp add: nthAncestor_add a1 kc(2))
  have cb: "nthAncestor h (kb + k) b = Some c"
    by (simp add: nthAncestor_add b1 kc(3))
  have last: "isAncestor h c' c" if c': "isAncestor h c' a" "isAncestor h c' b" for c'
  proof -
    from c' obtain i j where ij: "nthAncestor h i a = Some c'" "nthAncestor h j b = Some c'"
      unfolding isAncestor_def by auto
    from nthAncestor_instantOf [OF a ij(1)] nthAncestor_instantOf [OF b ij(2)]
    have g: "generation (h c') + i = generation (h a)"
      "generation (h c') + j = generation (h b)" by auto
    define m where "m = i - ka"
    have i: "i = ka + m" and j: "j = kb + m"
      using g unfolding m_def ka_def kb_def by linarith+
    from ij(1) have ma: "nthAncestor h m a1 = Some c'"
      unfolding i by (simp add: nthAncestor_add a1)
    from ij(2) have mb: "nthAncestor h m b1 = Some c'"
      unfolding j by (simp add: nthAncestor_add b1)
    from ma mb kc(4) have "k \<le> m" by (metis not_le)
    then have "m = k + (m - k)" by simp
    with ma have "nthAncestor h (k + (m - k)) a1 = Some c'" by simp
    then have "nthAncestor h (m - k) c = Some c'"
      by (simp only: nthAncestor_add kc(2) option.case)
    then show ?thesis unfolding isAncestor_def by blast
  qed
  have "isLastCommonAncestor h a b c"
    unfolding isLastCommonAncestor_def
  proof (intro conjI allI impI)
    show "isAncestor h c a" unfolding isAncestor_def using ca by blast
    show "isAncestor h c b" unfolding isAncestor_def using cb by blast
    fix c' assume "isAncestor h c' a \<and> isAncestor h c' b"
    then show "isAncestor h c' c" using last by blast
  qed
  with result show ?thesis by blast
qed

lemma pathToAncestorLoop_tree:
  "instantOf h r a \<Longrightarrow> nthAncestor h k a = Some c
     \<Longrightarrow> pathToAncestorLoop h (Some a) (Some c) acc = Some (Inr (acc @ pathUp h k a))"
proof (induction k arbitrary: a acc)
  case 0
  then show ?case by (subst pathToAncestorLoop.simps) simp
next
  case (Suc k)
  from Suc.prems(2) obtain p where p: "parent (h a) = Some p" "nthAncestor h k p = Some c"
    by (auto split: option.splits)
  from nthAncestor_instantOf [OF Suc.prems] have "a \<noteq> c" by auto
  from instantOf_parent [OF Suc.prems(1) p(1)] have "instantOf h r p" by simp
  from Suc.IH [OF this p(2), of "acc @ [a]"] \<open>a \<noteq> c\<close> p(1) show ?case
    by (subst pathToAncestorLoop.simps) simp
qed

lemma pathToAncestor_tree:
  assumes "instantOf h r a" and "isAncestor h c a"
  shows "pathToAncestor h a (Some c)
         = Some (Inr (pathUp h (generation (h a) - generation (h c)) a))"
proof -
  from assms(2) obtain k where k: "nthAncestor h k a = Some c"
    unfolding isAncestor_def by auto
  from nthAncestor_instantOf [OF assms(1) k]
  have "k = generation (h a) - generation (h c)" by auto
  with pathToAncestorLoop_tree [OF assms(1) k, of "[]"] show ?thesis
    by (simp add: pathToAncestor_def)
qed

section \<open>Time capsule: acquire\<close>

lemma acquire_same_instant:
  "currentInstant s = Some x
     \<Longrightarrow> acquire h x s = Some (Inr (data s), s\<lparr>acquisitionCount := acquisitionCount s + 1\<rparr>)"
  by (simp add: acquire_def)

lemma acquire_elsewhere:
  "currentInstant s \<noteq> Some x \<Longrightarrow> 0 < acquisitionCount s
     \<Longrightarrow> acquire h x s = Some (Inl AlreadyAcquired, s)"
  by (simp add: acquire_def)

lemma acquire_move:
  assumes x: "instantOf h r x" and cur: "currentInstant s = Some c" and c: "instantOf h r c"
    and ne: "c \<noteq> x" and free: "acquisitionCount s = 0"
  shows "\<exists>anc. findLastCommonAncestor h (Some x) (Some c) = Some (Inr (Some anc))
           \<and> isLastCommonAncestor h x c anc
           \<and> acquire h x s =
               Some (case undoAll h (pathUp h (generation (h c) - generation (h anc)) c)
                            (data s) of
                       Throws msg d1 \<Rightarrow> (Inl (Thrown msg), s\<lparr>data := d1\<rparr>)
                     | Returns d1 \<Rightarrow>
                        (case redoAll h
                                (rev (pathUp h (generation (h x) - generation (h anc)) x)) d1 of
                           Throws msg d2 \<Rightarrow> (Inl (Thrown msg), s\<lparr>data := d2\<rparr>)
                         | Returns d2 \<Rightarrow>
                            (Inr d2, s\<lparr>data := d2, currentInstant := Some x,
                                       acquisitionCount := 1\<rparr>)))"
proof -
  from findLastCommonAncestor_tree [OF x c] obtain anc
    where anc: "findLastCommonAncestor h (Some x) (Some c) = Some (Inr (Some anc))"
      "isLastCommonAncestor h x c anc" by blast
  then have up: "isAncestor h anc x" "isAncestor h anc c"
    unfolding isLastCommonAncestor_def by auto
  note px = pathToAncestor_tree [OF x up(1)]
  note pc = pathToAncestor_tree [OF c up(2)]
  from cur ne free have "acquire h x s =
      Some (case undoAll h (pathUp h (generation (h c) - generation (h anc)) c) (data s) of
              Throws msg d1 \<Rightarrow> (Inl (Thrown msg), s\<lparr>data := d1\<rparr>)
            | Returns d1 \<Rightarrow>
               (case redoAll h (rev (pathUp h (generation (h x) - generation (h anc)) x)) d1 of
                  Throws msg d2 \<Rightarrow> (Inl (Thrown msg), s\<lparr>data := d2\<rparr>)
                | Returns d2 \<Rightarrow>
                   (Inr d2, s\<lparr>data := d2, currentInstant := Some x,
                              acquisitionCount := 1\<rparr>)))"
    by (simp add: acquire_def anc(1) px pc Let_def split: outcome.splits)
  with anc show ?thesis by blast
qed

lemma acquire_move_outcome:
  assumes x: "instantOf h r x" and cur: "currentInstant s = Some c" and c: "instantOf h r c"
    and ne: "c \<noteq> x" and free: "acquisitionCount s = 0"
  shows "\<exists>anc. isLastCommonAncestor h x c anc
           \<and> acquire h x s =
               Some (case acquireOutcome h
                            (pathUp h (generation (h c) - generation (h anc)) c)
                            (rev (pathUp h (generation (h x) - generation (h anc)) x))
                            (data s) of
                       Throws msg d' \<Rightarrow> (Inl (Thrown msg), s\<lparr>data := d'\<rparr>)
                     | Returns d' \<Rightarrow>
                        (Inr d', s\<lparr>data := d', currentInstant := Some x,
                                   acquisitionCount := 1\<rparr>))"
proof -
  from acquire_move [OF assms] obtain anc where anc: "isLastCommonAncestor h x c anc"
    and acq: "acquire h x s =
               Some (case undoAll h (pathUp h (generation (h c) - generation (h anc)) c)
                            (data s) of
                       Throws msg d1 \<Rightarrow> (Inl (Thrown msg), s\<lparr>data := d1\<rparr>)
                     | Returns d1 \<Rightarrow>
                        (case redoAll h
                                (rev (pathUp h (generation (h x) - generation (h anc)) x)) d1 of
                           Throws msg d2 \<Rightarrow> (Inl (Thrown msg), s\<lparr>data := d2\<rparr>)
                         | Returns d2 \<Rightarrow>
                            (Inr d2, s\<lparr>data := d2, currentInstant := Some x,
                                       acquisitionCount := 1\<rparr>)))"
    by blast
  from acq have "acquire h x s =
               Some (case acquireOutcome h
                            (pathUp h (generation (h c) - generation (h anc)) c)
                            (rev (pathUp h (generation (h x) - generation (h anc)) x))
                            (data s) of
                       Throws msg d' \<Rightarrow> (Inl (Thrown msg), s\<lparr>data := d'\<rparr>)
                     | Returns d' \<Rightarrow>
                        (Inr d', s\<lparr>data := d', currentInstant := Some x,
                                   acquisitionCount := 1\<rparr>))"
    by (simp add: acquireOutcome_def split: outcome.splits)
  with anc show ?thesis by blast
qed

lemma acquire_result:
  assumes "acquire h x s = Some (Inr d, s1)"
  shows "s1 = s\<lparr>data := d, currentInstant := Some x,
                 acquisitionCount := acquisitionCount s + 1\<rparr>"
proof (cases "currentInstant s = Some x")
  case True
  with assms show ?thesis by (cases s) (auto simp: acquire_same_instant)
next
  case False
  with assms show ?thesis
    unfolding acquire_def Let_def
    by (auto split: if_splits option.splits sum.splits outcome.splits)
qed

lemma acquire_raise_frame:
  assumes "acquire h x s = Some (Inl e, s')"
  shows "currentInstant s' = currentInstant s \<and> acquisitionCount s' = acquisitionCount s"
  using assms unfolding acquire_def Let_def
  by (auto split: if_splits option.splits sum.splits outcome.splits)

section \<open>Time capsule: release and query\<close>

lemma release_held:
  "currentInstant s = Some x \<Longrightarrow> 0 < acquisitionCount s
     \<Longrightarrow> release x s = (Inr (), s\<lparr>acquisitionCount := acquisitionCount s - 1\<rparr>)"
  by (simp add: release_def)

section \<open>Time capsule: undoing and redoing a path\<close>

lemma redoAll_append:
  "redoAll h (p @ q) d =
     (case redoAll h p d of Throws msg d' \<Rightarrow> Throws msg d' | Returns d' \<Rightarrow> redoAll h q d')"
  by (induction p arbitrary: d) (simp_all split: outcome.splits)

lemma pathUp_instantOf:
  "instantOf h r a \<Longrightarrow> i \<in> set (pathUp h k a) \<Longrightarrow> instantOf h r i"
proof (induction k arbitrary: a)
  case 0
  then show ?case by simp
next
  case (Suc k)
  show ?case
  proof (cases "parent (h a)")
    case None
    with Suc.prems show ?thesis by simp
  next
    case (Some p)
    from instantOf_parent [OF Suc.prems(1) Some] have "instantOf h r p" by simp
    with Suc.IH [of p] Suc.prems Some show ?thesis by auto
  qed
qed

lemma undoAll_redoAll_rev:
  assumes "\<And>i d. i \<in> set p
             \<Longrightarrow> \<exists>d'. redoChange (h i) d = Returns d' \<and> undoChange (h i) d' = Returns d"
  shows "\<exists>e. redoAll h (rev p) d = Returns e \<and> undoAll h p e = Returns d"
  using assms
proof (induction p)
  case Nil
  then show ?case by simp
next
  case (Cons i p)
  from Cons.IH Cons.prems obtain e1
    where e1: "redoAll h (rev p) d = Returns e1" "undoAll h p e1 = Returns d" by auto
  from Cons.prems [of i e1] obtain e
    where e: "redoChange (h i) e1 = Returns e" "undoChange (h i) e = Returns e1" by auto
  from e1 e show ?case by (simp add: redoAll_append)
qed

lemma redoAll_rev_undoAll:
  assumes "\<And>i d. i \<in> set p
             \<Longrightarrow> \<exists>d'. undoChange (h i) d = Returns d' \<and> redoChange (h i) d' = Returns d"
  shows "\<exists>e. undoAll h p d = Returns e \<and> redoAll h (rev p) e = Returns d"
  using assms
proof (induction p arbitrary: d)
  case Nil
  then show ?case by simp
next
  case (Cons i p)
  from Cons.prems [of i d] obtain d1
    where d1: "undoChange (h i) d = Returns d1" "redoChange (h i) d1 = Returns d" by auto
  from Cons.IH [of d1] Cons.prems obtain e
    where e: "undoAll h p d1 = Returns e" "redoAll h (rev p) e = Returns d1" by auto
  from d1 e show ?case by (simp add: redoAll_append)
qed

lemma inverseThunks_path:
  assumes inv: "inverseThunks h r" and a: "instantOf h r a"
  shows "\<exists>e. redoAll h (rev (pathUp h k a)) d = Returns e
              \<and> undoAll h (pathUp h k a) e = Returns d"
    and "\<exists>e. undoAll h (pathUp h k a) d = Returns e
              \<and> redoAll h (rev (pathUp h k a)) e = Returns d"
proof -
  have members: "instantOf h r i" if "i \<in> set (pathUp h k a)" for i
    using pathUp_instantOf [OF a that] .
  show "\<exists>e. redoAll h (rev (pathUp h k a)) d = Returns e
              \<and> undoAll h (pathUp h k a) e = Returns d"
    using inv members unfolding inverseThunks_def
    by (intro undoAll_redoAll_rev) blast
  show "\<exists>e. undoAll h (pathUp h k a) d = Returns e
              \<and> redoAll h (rev (pathUp h k a)) e = Returns d"
    using inv members unfolding inverseThunks_def
    by (intro redoAll_rev_undoAll) blast
qed

lemma acquireOutcome_returns:
  assumes inv: "inverseThunks h r" and x: "instantOf h r x" and y: "instantOf h r y"
  shows "\<exists>e. acquireOutcome h (pathUp h j x) (rev (pathUp h k y)) d = Returns e"
proof -
  from inverseThunks_path(2) [OF inv x, of j d] obtain u
    where u: "undoAll h (pathUp h j x) d = Returns u" by blast
  from inverseThunks_path(1) [OF inv y, of k u] obtain e
    where "redoAll h (rev (pathUp h k y)) u = Returns e" by blast
  with u show ?thesis by (simp add: acquireOutcome_def)
qed

lemma there_and_back:
  assumes inv: "inverseThunks h r" and x: "instantOf h r x" and y: "instantOf h r y"
    and there: "acquireOutcome h (pathUp h j x) (rev (pathUp h k y)) d1 = Returns d3"
    and back_again: "acquireOutcome h (pathUp h k y) (rev (pathUp h j x)) d3 = Returns d5"
  shows "d5 = d1"
proof -
  from inverseThunks_path(2) [OF inv x, of j d1] obtain u
    where u: "undoAll h (pathUp h j x) d1 = Returns u"
      "redoAll h (rev (pathUp h j x)) u = Returns d1" by blast
  from there u(1) have d3: "redoAll h (rev (pathUp h k y)) u = Returns d3"
    by (simp add: acquireOutcome_def)
  from inverseThunks_path(1) [OF inv y, of k u] d3
  have "undoAll h (pathUp h k y) d3 = Returns u" by auto
  with back_again have "redoAll h (rev (pathUp h j x)) u = Returns d5"
    by (simp add: acquireOutcome_def)
  with u(2) show ?thesis by simp
qed

lemma acquire_free:
  assumes inv: "inverseThunks h r"
    and x: "instantOf h r x" and cur: "currentInstant s = Some c" and c: "instantOf h r c"
    and free: "acquisitionCount s = 0"
  shows "\<exists>d. acquire h x s =
               Some (Inr d, s\<lparr>data := d, currentInstant := Some x, acquisitionCount := 1\<rparr>)
           \<and> (c = x \<longrightarrow> d = data s)
           \<and> (c \<noteq> x \<longrightarrow> (\<exists>anc. isLastCommonAncestor h x c anc
                 \<and> acquireOutcome h
                      (pathUp h (generation (h c) - generation (h anc)) c)
                      (rev (pathUp h (generation (h x) - generation (h anc)) x))
                      (data s) = Returns d))"
proof (cases "c = x")
  case True
  with cur free have "acquire h x s =
      Some (Inr (data s), s\<lparr>data := data s, currentInstant := Some x, acquisitionCount := 1\<rparr>)"
    by (cases s) (simp add: acquire_same_instant)
  with True show ?thesis by blast
next
  case False
  from acquire_move_outcome [OF x cur c False free] obtain anc
    where anc: "isLastCommonAncestor h x c anc"
      and acq: "acquire h x s =
               Some (case acquireOutcome h
                            (pathUp h (generation (h c) - generation (h anc)) c)
                            (rev (pathUp h (generation (h x) - generation (h anc)) x))
                            (data s) of
                       Throws msg d' \<Rightarrow> (Inl (Thrown msg), s\<lparr>data := d'\<rparr>)
                     | Returns d' \<Rightarrow>
                        (Inr d', s\<lparr>data := d', currentInstant := Some x,
                                   acquisitionCount := 1\<rparr>))"
    by blast
  from acquireOutcome_returns [OF inv c x] obtain d
    where d: "acquireOutcome h (pathUp h (generation (h c) - generation (h anc)) c)
                (rev (pathUp h (generation (h x) - generation (h anc)) x)) (data s) = Returns d"
    by blast
  with acq have "acquire h x s =
      Some (Inr d, s\<lparr>data := d, currentInstant := Some x, acquisitionCount := 1\<rparr>)"
    by simp
  with False anc d show ?thesis by blast
qed

lemma roundTrip_free:
  assumes inv: "inverseThunks h r"
    and x: "instantOf h r x" and y: "instantOf h r y"
    and cur: "currentInstant s = Some c" and c: "instantOf h r c"
    and free: "acquisitionCount s = 0"
  shows "\<exists>d. roundTrip h x y s = Some (d, d)"
proof -
  from acquire_free [OF inv x cur c free] obtain d1
    where a1: "acquire h x s =
        Some (Inr d1, s\<lparr>data := d1, currentInstant := Some x, acquisitionCount := 1\<rparr>)"
    by blast
  define s1 where "s1 = s\<lparr>data := d1, currentInstant := Some x, acquisitionCount := 1\<rparr>"
  define s2 where "s2 = s\<lparr>data := d1, currentInstant := Some x, acquisitionCount := 0\<rparr>"
  have r1: "release x s1 = (Inr (), s2)"
    unfolding s1_def s2_def by (simp add: release_def)
  have s2: "currentInstant s2 = Some x" "acquisitionCount s2 = 0" "data s2 = d1"
    unfolding s2_def by simp_all
  from acquire_free [OF inv y s2(1) x s2(2)] obtain d3
    where a2: "acquire h y s2 =
        Some (Inr d3, s2\<lparr>data := d3, currentInstant := Some y, acquisitionCount := 1\<rparr>)"
      and same3: "x = y \<longrightarrow> d3 = d1"
      and move3: "x \<noteq> y \<longrightarrow> (\<exists>anc. isLastCommonAncestor h y x anc
                 \<and> acquireOutcome h
                      (pathUp h (generation (h x) - generation (h anc)) x)
                      (rev (pathUp h (generation (h y) - generation (h anc)) y))
                      d1 = Returns d3)"
    unfolding s2(3) by blast
  define s3 where "s3 = s2\<lparr>data := d3, currentInstant := Some y, acquisitionCount := 1\<rparr>"
  define s4 where "s4 = s2\<lparr>data := d3, currentInstant := Some y, acquisitionCount := 0\<rparr>"
  have r2: "release y s3 = (Inr (), s4)"
    unfolding s3_def s4_def by (simp add: release_def)
  have s4: "currentInstant s4 = Some y" "acquisitionCount s4 = 0" "data s4 = d3"
    unfolding s4_def by simp_all
  from acquire_free [OF inv x s4(1) y s4(2)] obtain d5
    where a3: "acquire h x s4 =
        Some (Inr d5, s4\<lparr>data := d5, currentInstant := Some x, acquisitionCount := 1\<rparr>)"
      and same5: "y = x \<longrightarrow> d5 = d3"
      and move5: "y \<noteq> x \<longrightarrow> (\<exists>anc. isLastCommonAncestor h x y anc
                 \<and> acquireOutcome h
                      (pathUp h (generation (h y) - generation (h anc)) y)
                      (rev (pathUp h (generation (h x) - generation (h anc)) x))
                      d3 = Returns d5)"
    unfolding s4(3) by blast
  have trip: "roundTrip h x y s = Some (d1, d5)"
    unfolding roundTrip_def
    using a1 r1 a2 r2 a3 unfolding s1_def [symmetric] s3_def [symmetric] by simp
  have "d5 = d1"
  proof (cases "x = y")
    case True
    with same3 same5 show ?thesis by simp
  next
    case False
    with move3 obtain anc where anc: "isLastCommonAncestor h y x anc"
      "acquireOutcome h (pathUp h (generation (h x) - generation (h anc)) x)
         (rev (pathUp h (generation (h y) - generation (h anc)) y)) d1 = Returns d3" by blast
    from False move5 obtain anc' where anc': "isLastCommonAncestor h x y anc'"
      "acquireOutcome h (pathUp h (generation (h y) - generation (h anc')) y)
         (rev (pathUp h (generation (h x) - generation (h anc')) x)) d3 = Returns d5" by auto
    from isLastCommonAncestor_unique [OF y anc(1) anc'(1)] have "anc = anc'" .
    with anc(2) anc'(2) there_and_back [OF inv x y] show ?thesis by blast
  qed
  with trip show ?thesis by simp
qed

lemma roundTrip_held:
  assumes "roundTrip h x y s = Some (d1, d5)" and "0 < acquisitionCount s"
  shows "d1 = d5"
proof -
  from assms(1) obtain s1 where a1: "acquire h x s = Some (Inr d1, s1)"
    unfolding roundTrip_def
    by (auto split: option.splits sum.splits prod.splits)
  have curx: "currentInstant s = Some x"
  proof (rule ccontr)
    assume "currentInstant s \<noteq> Some x"
    from acquire_elsewhere [OF this assms(2)] a1 show False by simp
  qed
  with a1 have d1: "d1 = data s" and s1: "s1 = s\<lparr>acquisitionCount := acquisitionCount s + 1\<rparr>"
    by (simp_all add: acquire_same_instant)
  have r1: "release x s1 = (Inr (), s)"
    unfolding s1 using curx by (simp add: release_def)
  from assms(1) a1 r1 obtain d3 s3 where a2: "acquire h y s = Some (Inr d3, s3)"
    unfolding roundTrip_def
    by (auto split: option.splits sum.splits prod.splits)
  have cury: "currentInstant s = Some y"
  proof (rule ccontr)
    assume "currentInstant s \<noteq> Some y"
    from acquire_elsewhere [OF this assms(2)] a2 show False by simp
  qed
  with curx have "y = x" by simp
  with a2 a1 have s3: "s3 = s1" by simp
  from assms(1) a1 r1 a2 \<open>y = x\<close> have "acquire h x s = Some (Inr d5, s1) \<or>
      (\<exists>s5. acquire h x s = Some (Inr d5, s5))"
    unfolding roundTrip_def s3
    by (auto split: option.splits sum.splits prod.splits)
  with a1 show ?thesis by auto
qed

section \<open>The example capsules\<close>


lemma loggingCapsule_instants:
  "instants loggingCapsule 0 =
     \<lparr>parent = None, undoChange = discard, redoChange = discard, generation = 0\<rparr>"
  "instants loggingCapsule 1 =
     \<lparr>parent = Some 0, undoChange = logging (Undo 1), redoChange = logging (Redo 1),
      generation = 1\<rparr>"
  "instants loggingCapsule (Suc 0) =
     \<lparr>parent = Some 0, undoChange = logging (Undo 1), redoChange = logging (Redo 1),
      generation = 1\<rparr>"
  "instants loggingCapsule 2 =
     \<lparr>parent = Some 1, undoChange = logging (Undo 2), redoChange = logging (Redo 2),
      generation = 2\<rparr>"
  "instants loggingCapsule 3 =
     \<lparr>parent = Some 2, undoChange = logging (Undo 3), redoChange = logging (Redo 3),
      generation = 3\<rparr>"
  "instants loggingCapsule 4 =
     \<lparr>parent = Some 1, undoChange = logging (Undo 4), redoChange = logging (Redo 4),
      generation = 2\<rparr>"
  "instants loggingCapsule 5 =
     \<lparr>parent = Some 4, undoChange = logging (Undo 5), redoChange = logging (Redo 5),
      generation = 3\<rparr>"
  by (simp_all add: loggingCapsule_def loggingChild_def modify_def create_def Let_def
      eval_nat_numeral)

lemma loggingCapsule_state:
  "state loggingCapsule = \<lparr>data = [], currentInstant = Some 0, acquisitionCount = 0\<rparr>"
  by (simp add: loggingCapsule_def loggingChild_def modify_def create_def Let_def)

lemma loggingCapsule_tree:
  "instantOf (instants loggingCapsule) 0 0"
  "instantOf (instants loggingCapsule) 0 1"
  "instantOf (instants loggingCapsule) 0 2"
  "instantOf (instants loggingCapsule) 0 3"
  "instantOf (instants loggingCapsule) 0 4"
  "instantOf (instants loggingCapsule) 0 5"
proof -
  let ?h = "instants loggingCapsule"
  show 0: "instantOf ?h 0 0"
    by (rule instantOf.root) (simp_all add: loggingCapsule_instants)
  show 1: "instantOf ?h 0 1"
    by (rule instantOf.child [OF _ 0]) (simp_all add: loggingCapsule_instants)
  show 2: "instantOf ?h 0 2"
    by (rule instantOf.child [OF _ 1]) (simp_all add: loggingCapsule_instants)
  show "instantOf ?h 0 3"
    by (rule instantOf.child [OF _ 2]) (simp_all add: loggingCapsule_instants)
  show 4: "instantOf ?h 0 4"
    by (rule instantOf.child [OF _ 1]) (simp_all add: loggingCapsule_instants)
  show "instantOf ?h 0 5"
    by (rule instantOf.child [OF _ 4]) (simp_all add: loggingCapsule_instants)
qed

lemma loggingCapsule_ancestor_of_5_and_3:
  "findLastCommonAncestor (instants loggingCapsule) (Some 5) (Some 3) = Some (Inr (Some 1))"
  by (simp add: findLastCommonAncestor_def raiseFirst.simps raiseSecond.simps raiseBoth.simps
      loggingCapsule_instants)

lemma addingCapsule_instants:
  "instants addingCapsule 0 =
     \<lparr>parent = None, undoChange = discard, redoChange = discard, generation = 0\<rparr>"
  "instants addingCapsule 1 =
     \<lparr>parent = Some 0, undoChange = adding (- 1), redoChange = adding 1, generation = 1\<rparr>"
  "instants addingCapsule (Suc 0) =
     \<lparr>parent = Some 0, undoChange = adding (- 1), redoChange = adding 1, generation = 1\<rparr>"
  "instants addingCapsule 2 =
     \<lparr>parent = Some 1, undoChange = adding (- 2), redoChange = adding 2, generation = 2\<rparr>"
  "instants addingCapsule 3 =
     \<lparr>parent = Some 2, undoChange = adding (- 3), redoChange = adding 3, generation = 3\<rparr>"
  "instants addingCapsule 4 =
     \<lparr>parent = Some 1, undoChange = adding (- 4), redoChange = adding 4, generation = 2\<rparr>"
  "instants addingCapsule 5 =
     \<lparr>parent = Some 4, undoChange = adding (- 5), redoChange = adding 5, generation = 3\<rparr>"
  by (simp_all add: addingCapsule_def addingChild_def modify_def create_def Let_def
      eval_nat_numeral)

lemma addingCapsule_state:
  "state addingCapsule = \<lparr>data = 0, currentInstant = Some 0, acquisitionCount = 0\<rparr>"
  by (simp add: addingCapsule_def addingChild_def modify_def create_def Let_def)

lemma addingCapsule_tree:
  "instantOf (instants addingCapsule) 0 0"
  "instantOf (instants addingCapsule) 0 1"
  "instantOf (instants addingCapsule) 0 2"
  "instantOf (instants addingCapsule) 0 3"
  "instantOf (instants addingCapsule) 0 4"
  "instantOf (instants addingCapsule) 0 5"
proof -
  let ?h = "instants addingCapsule"
  show 0: "instantOf ?h 0 0"
    by (rule instantOf.root) (simp_all add: addingCapsule_instants)
  show 1: "instantOf ?h 0 1"
    by (rule instantOf.child [OF _ 0]) (simp_all add: addingCapsule_instants)
  show 2: "instantOf ?h 0 2"
    by (rule instantOf.child [OF _ 1]) (simp_all add: addingCapsule_instants)
  show "instantOf ?h 0 3"
    by (rule instantOf.child [OF _ 2]) (simp_all add: addingCapsule_instants)
  show 4: "instantOf ?h 0 4"
    by (rule instantOf.child [OF _ 1]) (simp_all add: addingCapsule_instants)
  show "instantOf ?h 0 5"
    by (rule instantOf.child [OF _ 4]) (simp_all add: addingCapsule_instants)
qed

lemma throwingCapsule_instants:
  "instants throwingCapsule 0 =
     \<lparr>parent = None, undoChange = discard, redoChange = discard, generation = 0\<rparr>"
  "instants throwingCapsule 1 =
     \<lparr>parent = Some 0, undoChange = adding (- 1), redoChange = adding 1, generation = 1\<rparr>"
  "instants throwingCapsule (Suc 0) =
     \<lparr>parent = Some 0, undoChange = adding (- 1), redoChange = adding 1, generation = 1\<rparr>"
  "instants throwingCapsule 2 =
     \<lparr>parent = Some 1, undoChange = adding (- 2),
      redoChange = addingThenThrowing 2 ''boom'', generation = 2\<rparr>"
  by (simp_all add: throwingCapsule_def modify_def create_def Let_def eval_nat_numeral)

lemma throwingCapsule_tree:
  "instantOf (instants throwingCapsule) 0 0"
  "instantOf (instants throwingCapsule) 0 1"
  "instantOf (instants throwingCapsule) 0 2"
proof -
  let ?h = "instants throwingCapsule"
  show 0: "instantOf ?h 0 0"
    by (rule instantOf.root) (simp_all add: throwingCapsule_instants)
  show 1: "instantOf ?h 0 1"
    by (rule instantOf.child [OF _ 0]) (simp_all add: throwingCapsule_instants)
  show "instantOf ?h 0 2"
    by (rule instantOf.child [OF _ 1]) (simp_all add: throwingCapsule_instants)
qed

lemma throwingCapsule_acquire_2:
  "acquire (instants throwingCapsule) 2
     \<lparr>data = 0, currentInstant = Some 0, acquisitionCount = 0\<rparr>
   = Some (Inl (Thrown ''boom''), \<lparr>data = 3, currentInstant = Some 0, acquisitionCount = 0\<rparr>)"
  by (simp add: acquire_def findLastCommonAncestor_def raiseFirst.simps raiseSecond.simps
      raiseBoth.simps pathToAncestor_def pathToAncestorLoop.simps throwingCapsule_instants
      adding_def addingThenThrowing_def Let_def)

section \<open>Time capsule: the claims\<close>



text \<open>
  Claim C4, as stated: \<^verbatim>\<open>acquire\<close> raises only when the current instant is not \<open>x\<close> and
  the acquisition count is not zero. The thunks are called with no \<^verbatim>\<open>try\<close>, so a thunk
  that throws makes \<^verbatim>\<open>acquire\<close> raise with the count at zero: in the capsule whose second
  change throws, acquiring the instant 2 from the root applies the first change and the
  second, raises, and leaves the current instant and the count as they were.
\<close>

theorem acquire_thunk_throws_counterexample:
  "instantOf (instants throwingCapsule) 0 2 \<and> instantOf (instants throwingCapsule) 0 0
   \<and> acquire (instants throwingCapsule) 2
        \<lparr>data = 0, currentInstant = Some 0, acquisitionCount = 0\<rparr>
      = Some (Inl (Thrown ''boom''),
              \<lparr>data = 3, currentInstant = Some 0, acquisitionCount = 0\<rparr>)"
  using throwingCapsule_tree throwingCapsule_acquire_2 by simp

text \<open>
  Claim C4, amended. For an instant \<open>x\<close> of the capsule, with the current instant in the
  capsule, \<^verbatim>\<open>acquire\<close> on \<open>x\<close> raises an error exactly when the current instant is not \<open>x\<close>
  and either the acquisition count is not zero, or it is zero and one of the undo and redo
  thunks on the path throws. It raises the error of \<^verbatim>\<open>acquire\<close> itself exactly when the
  current instant is not \<open>x\<close> and the acquisition count is not zero, and then the state is
  unchanged; any other error is the exception of a thunk. When the current instant is
  \<open>x\<close>, it returns the data as it is and changes nothing in the state but the acquisition
  count, which goes up by one: no thunk is applied.
\<close>

theorem acquire_raises_iff:
  assumes "instantOf h r x" and "currentInstant s = Some c" and "instantOf h r c"
  shows "((\<exists>e s'. acquire h x s = Some (Inl e, s'))
            \<longleftrightarrow> (currentInstant s \<noteq> Some x
                 \<and> (acquisitionCount s \<noteq> 0
                      \<or> (\<exists>anc msg d'. isLastCommonAncestor h x c anc
                            \<and> acquireOutcome h
                                 (pathUp h (generation (h c) - generation (h anc)) c)
                                 (rev (pathUp h (generation (h x) - generation (h anc)) x))
                                 (data s) = Throws msg d'))))
         \<and> ((\<exists>s'. acquire h x s = Some (Inl AlreadyAcquired, s'))
            \<longleftrightarrow> (currentInstant s \<noteq> Some x \<and> acquisitionCount s \<noteq> 0))
         \<and> (\<forall>e s'. acquire h x s = Some (Inl e, s') \<longrightarrow>
               (e = AlreadyAcquired \<and> s' = s) \<or> (\<exists>msg. e = Thrown msg))
         \<and> (currentInstant s = Some x \<longrightarrow>
              acquire h x s
              = Some (Inr (data s), s\<lparr>acquisitionCount := acquisitionCount s + 1\<rparr>))"
proof (cases "c = x")
  case True
  with assms(2) show ?thesis by (simp add: acquire_same_instant)
next
  case False
  show ?thesis
  proof (cases "acquisitionCount s = 0")
    case nonzero: False
    with \<open>c \<noteq> x\<close> assms(2) show ?thesis by (simp add: acquire_elsewhere)
  next
    case True
    from acquire_move_outcome [OF assms False True] obtain anc
      where anc: "isLastCommonAncestor h x c anc"
        and acq: "acquire h x s =
               Some (case acquireOutcome h
                            (pathUp h (generation (h c) - generation (h anc)) c)
                            (rev (pathUp h (generation (h x) - generation (h anc)) x))
                            (data s) of
                       Throws msg d' \<Rightarrow> (Inl (Thrown msg), s\<lparr>data := d'\<rparr>)
                     | Returns d' \<Rightarrow>
                        (Inr d', s\<lparr>data := d', currentInstant := Some x,
                                   acquisitionCount := 1\<rparr>))"
      by blast
    have only: "anc' = anc" if "isLastCommonAncestor h x c anc'" for anc'
      using isLastCommonAncestor_same [OF assms(1) that anc] .
    show ?thesis
    proof (cases "acquireOutcome h (pathUp h (generation (h c) - generation (h anc)) c)
                    (rev (pathUp h (generation (h x) - generation (h anc)) x)) (data s)")
      case (Returns d')
      with acq have "acquire h x s
          = Some (Inr d', s\<lparr>data := d', currentInstant := Some x, acquisitionCount := 1\<rparr>)"
        by simp
      moreover have "\<nexists>anc' msg d''. isLastCommonAncestor h x c anc'
                            \<and> acquireOutcome h
                                 (pathUp h (generation (h c) - generation (h anc')) c)
                                 (rev (pathUp h (generation (h x) - generation (h anc')) x))
                                 (data s) = Throws msg d''"
        using only Returns by auto
      ultimately show ?thesis using True False assms(2) by simp
    next
      case (Throws msg d')
      with acq have raised: "acquire h x s = Some (Inl (Thrown msg), s\<lparr>data := d'\<rparr>)"
        by simp
      moreover from anc Throws
      have "\<exists>anc' msg d''. isLastCommonAncestor h x c anc'
                            \<and> acquireOutcome h
                                 (pathUp h (generation (h c) - generation (h anc')) c)
                                 (rev (pathUp h (generation (h x) - generation (h anc')) x))
                                 (data s) = Throws msg d''"
        by blast
      ultimately show ?thesis using True False assms(2) by simp
    qed
  qed
qed

theorem acquire_raises_iff_witness:
  "instantOf (instants loggingCapsule) 0 5 \<and> instantOf (instants loggingCapsule) 0 3
   \<and> (\<exists>s'. acquire (instants loggingCapsule) 5
        \<lparr>data = [], currentInstant = Some 3, acquisitionCount = 2\<rparr>
          = Some (Inl AlreadyAcquired, s'))
   \<and> (\<nexists>s'. acquire (instants loggingCapsule) 5
        \<lparr>data = [], currentInstant = Some 3, acquisitionCount = 0\<rparr>
          = Some (Inl AlreadyAcquired, s'))
   \<and> acquire (instants loggingCapsule) 3
        \<lparr>data = [], currentInstant = Some 3, acquisitionCount = 2\<rparr>
      = Some (Inr [], \<lparr>data = [], currentInstant = Some 3, acquisitionCount = 3\<rparr>)
   \<and> instantOf (instants throwingCapsule) 0 2 \<and> instantOf (instants throwingCapsule) 0 0
   \<and> acquire (instants throwingCapsule) 2
        \<lparr>data = 0, currentInstant = Some 0, acquisitionCount = 0\<rparr>
      = Some (Inl (Thrown ''boom''),
              \<lparr>data = 3, currentInstant = Some 0, acquisitionCount = 0\<rparr>)
   \<and> (\<exists>anc msg d'. isLastCommonAncestor (instants throwingCapsule) 2 0 anc
         \<and> acquireOutcome (instants throwingCapsule)
              (pathUp (instants throwingCapsule)
                 (generation (instants throwingCapsule 0)
                    - generation (instants throwingCapsule anc)) 0)
              (rev (pathUp (instants throwingCapsule)
                 (generation (instants throwingCapsule 2)
                    - generation (instants throwingCapsule anc)) 2))
              0 = Throws msg d')"
proof -
  let ?h = "instants loggingCapsule"
  let ?held = "\<lparr>data = [], currentInstant = Some 3, acquisitionCount = 2\<rparr> :: thunkCall list TimeCapsuleState"
  let ?free = "\<lparr>data = [], currentInstant = Some 3, acquisitionCount = 0\<rparr> :: thunkCall list TimeCapsuleState"
  let ?t = "instants throwingCapsule"
  let ?s = "\<lparr>data = 0, currentInstant = Some 0, acquisitionCount = 0\<rparr> :: int TimeCapsuleState"
  have cur: "currentInstant ?held = Some 3" "currentInstant ?free = Some 3"
    "currentInstant ?s = Some 0" by simp_all
  from acquire_raises_iff [OF loggingCapsule_tree(6) cur(1) loggingCapsule_tree(4)]
  have 1: "\<exists>s'. acquire ?h 5 ?held = Some (Inl AlreadyAcquired, s')" by simp
  from acquire_raises_iff [OF loggingCapsule_tree(6) cur(2) loggingCapsule_tree(4)]
  have 2: "\<nexists>s'. acquire ?h 5 ?free = Some (Inl AlreadyAcquired, s')" by simp
  from acquire_raises_iff [OF loggingCapsule_tree(4) cur(1) loggingCapsule_tree(4)]
  have 3: "acquire ?h 3 ?held
      = Some (Inr [], \<lparr>data = [], currentInstant = Some 3, acquisitionCount = 3\<rparr>)"
    by simp
  note thrown = throwingCapsule_acquire_2
  from acquire_raises_iff [OF throwingCapsule_tree(3) cur(3) throwingCapsule_tree(1)] thrown
  have 4: "\<exists>anc msg d'. isLastCommonAncestor ?t 2 0 anc
         \<and> acquireOutcome ?t
              (pathUp ?t (generation (?t 0) - generation (?t anc)) 0)
              (rev (pathUp ?t (generation (?t 2) - generation (?t anc)) 2))
              (data ?s) = Throws msg d'"
    by auto
  from 1 2 3 4 thrown loggingCapsule_tree throwingCapsule_tree show ?thesis by simp
qed

text \<open>
  Claim C5. \<^verbatim>\<open>release\<close> on \<open>x\<close> raises an error exactly when the acquisition count is zero
  or the current instant is not \<open>x\<close>. Otherwise it takes one off the acquisition count and
  leaves the data and the current instant as they are.
\<close>

theorem release_raises_iff:
  "((\<exists>e s'. release x s = (Inl e, s'))
      \<longleftrightarrow> (acquisitionCount s = 0 \<or> currentInstant s \<noteq> Some x))
   \<and> (acquisitionCount s \<noteq> 0 \<and> currentInstant s = Some x \<longrightarrow>
        (\<exists>s'. release x s = (Inr (), s')
           \<and> acquisitionCount s' + 1 = acquisitionCount s
           \<and> data s' = data s \<and> currentInstant s' = currentInstant s))"
  by (simp add: release_def)

theorem release_raises_iff_witness:
  "release 3 \<lparr>data = (7::int), currentInstant = Some 3, acquisitionCount = 2\<rparr>
     = (Inr (), \<lparr>data = 7, currentInstant = Some 3, acquisitionCount = 1\<rparr>)
   \<and> (\<exists>e s'. release 3 \<lparr>data = (7::int), currentInstant = Some 3, acquisitionCount = 0\<rparr>
        = (Inl e, s'))
   \<and> (\<exists>e s'. release 3 \<lparr>data = (7::int), currentInstant = Some 5, acquisitionCount = 2\<rparr>
        = (Inl e, s'))"
proof -
  let ?held = "\<lparr>data = (7::int), currentInstant = Some 3, acquisitionCount = 2\<rparr>"
  from release_raises_iff [of 3 ?held]
  obtain s' where "release 3 ?held = (Inr (), s')" "acquisitionCount s' + 1 = 2"
    "data s' = 7" "currentInstant s' = Some 3" by auto
  then have 1: "release 3 ?held
      = (Inr (), \<lparr>data = 7, currentInstant = Some 3, acquisitionCount = 1\<rparr>)"
    by (cases s') simp
  from release_raises_iff
    [of 3 "\<lparr>data = (7::int), currentInstant = Some 3, acquisitionCount = 0\<rparr>"]
  have 2: "\<exists>e s'. release 3 \<lparr>data = (7::int), currentInstant = Some 3, acquisitionCount = 0\<rparr>
        = (Inl e, s')" by simp
  from release_raises_iff
    [of 3 "\<lparr>data = (7::int), currentInstant = Some 5, acquisitionCount = 2\<rparr>"]
  have 3: "\<exists>e s'. release 3 \<lparr>data = (7::int), currentInstant = Some 5, acquisitionCount = 2\<rparr>
        = (Inl e, s')" by simp
  from 1 2 3 show ?thesis by blast
qed

text \<open>
  Claim C6. Let \<open>x\<close> and \<open>y\<close> be instants of one capsule whose thunks are inverses of each
  other, and let nothing but the capsule change the data. Then acquire \<open>x\<close>, release,
  acquire \<open>y\<close>, release, acquire \<open>x\<close> returns at the end the data that the first
  \<^verbatim>\<open>acquire\<close> returned; and the five calls all succeed when nothing holds the capsule at
  the start.
\<close>

theorem round_trip_same_data:
  assumes "inverseThunks h r" and "instantOf h r x" and "instantOf h r y"
    and "currentInstant s = Some c" and "instantOf h r c"
  shows "(acquisitionCount s = 0 \<longrightarrow> (\<exists>d. roundTrip h x y s = Some (d, d)))
         \<and> (\<forall>d1 d5. roundTrip h x y s = Some (d1, d5) \<longrightarrow> d1 = d5)"
proof (intro conjI allI impI)
  assume "acquisitionCount s = 0"
  from roundTrip_free [OF assms this] show "\<exists>d. roundTrip h x y s = Some (d, d)" .
next
  fix d1 d5 assume trip: "roundTrip h x y s = Some (d1, d5)"
  show "d1 = d5"
  proof (cases "acquisitionCount s = 0")
    case True
    from roundTrip_free [OF assms True] trip show ?thesis by auto
  next
    case False
    with roundTrip_held [OF trip] show ?thesis by simp
  qed
qed

lemma addingCapsule_inverseThunks: "inverseThunks (instants addingCapsule) r"
  by (simp add: inverseThunks_def addingCapsule_def addingChild_def modify_def create_def
      Let_def adding_def discard_def)

lemma addingCapsule_roundTrip:
  "roundTrip (instants addingCapsule) 3 5 (state addingCapsule) = Some (6, 6)"
  by (simp add: roundTrip_def acquire_def release_def findLastCommonAncestor_def
      raiseFirst.simps raiseSecond.simps raiseBoth.simps pathToAncestor_def
      pathToAncestorLoop.simps addingCapsule_instants addingCapsule_state adding_def
      discard_def Let_def)

theorem round_trip_same_data_witness:
  "inverseThunks (instants addingCapsule) 0
   \<and> instantOf (instants addingCapsule) 0 3 \<and> instantOf (instants addingCapsule) 0 5
   \<and> currentInstant (state addingCapsule) = Some 0
   \<and> instantOf (instants addingCapsule) 0 0
   \<and> acquisitionCount (state addingCapsule) = 0
   \<and> roundTrip (instants addingCapsule) 3 5 (state addingCapsule) = Some (6, 6)"
proof -
  have cur: "currentInstant (state addingCapsule) = Some 0"
    and free: "acquisitionCount (state addingCapsule) = 0"
    by (simp_all add: addingCapsule_state)
  from round_trip_same_data [OF addingCapsule_inverseThunks addingCapsule_tree(4)
      addingCapsule_tree(6) cur addingCapsule_tree(1)] free
  obtain d where "roundTrip (instants addingCapsule) 3 5 (state addingCapsule) = Some (d, d)"
    by blast
  then have "roundTrip (instants addingCapsule) 3 5 (state addingCapsule) = Some (6, 6)"
    by (simp add: addingCapsule_roundTrip)
  with addingCapsule_inverseThunks addingCapsule_tree cur free show ?thesis by simp
qed

text \<open>
  Claim C10. For two instants of one capsule (both reached from the root by parent links,
  with generation equal to depth), \<^verbatim>\<open>findLastCommonAncestor\<close> returns, and what it
  returns is an instant above both. Hence \<^verbatim>\<open>acquire\<close> on an instant of the capsule
  returns or raises, whatever the data and the acquisition count, when the current instant
  is in the capsule; and it does not raise a \<open>TypeError\<close>: what it raises is its own
  error or the exception of a thunk.
\<close>

theorem findLastCommonAncestor_terminates:
  assumes "instantOf h r a" and "instantOf h r b"
  shows "(\<exists>c. findLastCommonAncestor h (Some a) (Some b) = Some (Inr (Some c))
               \<and> isAncestor h c a \<and> isAncestor h c b)
         \<and> (\<forall>s. currentInstant s = Some b \<longrightarrow>
               (\<exists>res s'. acquire h a s = Some (res, s') \<and> res \<noteq> Inl TypeError))"
proof (intro conjI allI impI)
  from findLastCommonAncestor_tree [OF assms]
  show "\<exists>c. findLastCommonAncestor h (Some a) (Some b) = Some (Inr (Some c))
              \<and> isAncestor h c a \<and> isAncestor h c b"
    unfolding isLastCommonAncestor_def by blast
next
  fix s :: "'a TimeCapsuleState"
  assume cur: "currentInstant s = Some b"
  show "\<exists>res s'. acquire h a s = Some (res, s') \<and> res \<noteq> Inl TypeError"
  proof (cases "b = a")
    case True
    with cur show ?thesis by (simp add: acquire_same_instant)
  next
    case False
    show ?thesis
    proof (cases "acquisitionCount s = 0")
      case True
      from acquire_move_outcome [OF assms(1) cur assms(2) False True] obtain anc
        where acq: "acquire h a s =
               Some (case acquireOutcome h
                            (pathUp h (generation (h b) - generation (h anc)) b)
                            (rev (pathUp h (generation (h a) - generation (h anc)) a))
                            (data s) of
                       Throws msg d' \<Rightarrow> (Inl (Thrown msg), s\<lparr>data := d'\<rparr>)
                     | Returns d' \<Rightarrow>
                        (Inr d', s\<lparr>data := d', currentInstant := Some a,
                                   acquisitionCount := 1\<rparr>))"
        by blast
      show ?thesis
        by (cases "acquireOutcome h (pathUp h (generation (h b) - generation (h anc)) b)
                     (rev (pathUp h (generation (h a) - generation (h anc)) a)) (data s)")
           (simp_all add: acq)
    next
      case False
      with \<open>b \<noteq> a\<close> cur show ?thesis by (simp add: acquire_elsewhere)
    qed
  qed
qed

theorem findLastCommonAncestor_terminates_witness:
  "instantOf (instants loggingCapsule) 0 5 \<and> instantOf (instants loggingCapsule) 0 3
   \<and> findLastCommonAncestor (instants loggingCapsule) (Some 5) (Some 3) = Some (Inr (Some 1))
   \<and> isAncestor (instants loggingCapsule) 1 5 \<and> isAncestor (instants loggingCapsule) 1 3
   \<and> (\<exists>res s'. acquire (instants loggingCapsule) 5
          \<lparr>data = [], currentInstant = Some 3, acquisitionCount = 0\<rparr> = Some (res, s'))"
proof -
  let ?h = "instants loggingCapsule"
  let ?s = "\<lparr>data = [], currentInstant = Some 3, acquisitionCount = 0\<rparr> :: thunkCall list TimeCapsuleState"
  note inst = findLastCommonAncestor_terminates [OF loggingCapsule_tree(6) loggingCapsule_tree(4)]
  from inst obtain c where c: "findLastCommonAncestor ?h (Some 5) (Some 3) = Some (Inr (Some c))"
    "isAncestor ?h c 5" "isAncestor ?h c 3" by blast
  from c(1) have "c = 1" by (simp add: loggingCapsule_ancestor_of_5_and_3)
  moreover have "currentInstant ?s = Some 3" by simp
  with inst have "\<exists>res s'. acquire ?h 5 ?s = Some (res, s')" by blast
  ultimately show ?thesis using c loggingCapsule_tree by simp
qed

text \<open>
  \<^verbatim>\<open>query\<close> when the function returns: the release follows, the result of the function
  is returned and the acquisition count is what it was before the call.
\<close>

lemma query_release_after_return:
  assumes "acquire h x s = Some (Inr d, s1)" and "func d = (Inr result, d')"
  shows "\<exists>s'. query h x func s = Some (Inr result, s')
           \<and> acquisitionCount s' = acquisitionCount s
           \<and> data s' = d' \<and> currentInstant s' = Some x"
proof -
  from acquire_result [OF assms(1)]
  have s1: "s1 = s\<lparr>data := d, currentInstant := Some x,
                   acquisitionCount := acquisitionCount s + 1\<rparr>" .
  from assms show ?thesis
    unfolding s1 by (simp add: query_def release_def)
qed

text \<open>
  Claim C1. \<^verbatim>\<open>query\<close> is to release even when the function raises, so that after a
  failing query the acquisition count equals its value before the call. The body of
  \<^verbatim>\<open>query\<close> is \<^verbatim>\<open>acquire\<close>, the call and \<^verbatim>\<open>release\<close> in a row, with no \<^verbatim>\<open>try\<close>: on the
  root of a fresh capsule, whose count is 0, a function that raises leaves the count at 1,
  and from then on \<^verbatim>\<open>acquire\<close> on another instant raises.
\<close>

theorem query_raising_skips_release:
  "acquisitionCount (state addingCapsule) = 0
   \<and> query (instants addingCapsule) 0 raising (state addingCapsule)
     = Some (Inl (Thrown ''failure''),
             \<lparr>data = 0, currentInstant = Some 0, acquisitionCount = 1\<rparr>)
   \<and> acquire (instants addingCapsule) 1
       \<lparr>data = 0, currentInstant = Some 0, acquisitionCount = 1\<rparr>
     = Some (Inl AlreadyAcquired,
             \<lparr>data = 0, currentInstant = Some 0, acquisitionCount = 1\<rparr>)"
  by (simp add: query_def acquire_def raising_def addingCapsule_state)
end
